theory Spec2Isabelle
  imports Main "HOL-Library.Word"
begin


section \<open>Instructions\<close>

text \<open>
  The opcodes that \<^verbatim>\<open>code_impl.h\<close> emits or inspects. An instruction is the triple
  \<^verbatim>\<open>{op, X, N}\<close>: \<^verbatim>\<open>X\<close> is a signed 32-bit operand, \<^verbatim>\<open>N\<close> an unsigned 16-bit
  one (the widths are those of the two \<^verbatim>\<open>safe_narrow_cast\<close> calls in \<^verbatim>\<open>insertInstruction\<close>).
  The signed reading of \<^verbatim>\<open>X\<close> is \<open>sint\<close>.
\<close>

datatype OpCode =
    OP | OPN | LOAD | MOVE | STOREN | STORE | DROP | DROPR | LOADC | JF | JMP | LOOP
  | RET | WAIT | CALL | GUARD | TYPECHECK | FAIL_GUARD | PROFILE_OP | TAIL_CALL
  | INTERFACE_CALL | GET_ATTR | SET_ATTR | LIST_UNPACK | TUPLE_CONSTRUCT
  | NAMED_TUPLE_CONSTRUCT | LIST_CONSTRUCT | DICT_CONSTRUCT | CREATE_OBJECT
  | ISINSTANCE | TUPLE_SLICE | FORK | WARN | ENTER | EXIT

record Instruction =
  op :: OpCode
  X :: "32 word"
  N :: "16 word"

text \<open>
  \<^verbatim>\<open>safe_narrow_cast<Ttarget, Tsource>\<close>: the value is cast to the target type; when the
  cast does not round-trip a warning is printed and \<^verbatim>\<open>v\<close> is returned, which the return
  type \<^verbatim>\<open>Ttarget\<close> converts in the same way. The two instances used by
  \<^verbatim>\<open>insertInstruction\<close>: \<^verbatim>\<open>int64_t\<close> to \<^verbatim>\<open>int32_t\<close> and \<^verbatim>\<open>uint64_t\<close> to \<^verbatim>\<open>uint16_t\<close>.
\<close>

definition safe_narrow_cast_int32 :: "int \<Rightarrow> 32 word" where
  "safe_narrow_cast_int32 v =
     (let res = (word_of_int v :: 32 word) in
      if sint res \<noteq> v then word_of_int v else res)"

definition safe_narrow_cast_uint16 :: "nat \<Rightarrow> 16 word" where
  "safe_narrow_cast_uint16 v =
     (let res = (word_of_nat v :: 16 word) in
      if unat res \<noteq> v then word_of_nat v else res)"

section \<open>The graph IR, as far as the emitter reads it\<close>

text \<open>
  The IR classes (\<^verbatim>\<open>Node\<close>, \<^verbatim>\<open>Value\<close>, \<^verbatim>\<open>Block\<close>, \<^verbatim>\<open>Operator\<close>, the types) are declared
  outside this file of the repository; the model holds, for every accessor the emitter
  calls, the accessor's result as a field of the input. An accessor that throws when
  the attribute or the cast is missing is an \<open>option\<close> field.
\<close>

datatype node_kind =
    prim_Constant | prim_Return | prim_Drop | prim_If | prim_Loop | aten_wait
  | prim_Param | prim_CallFunction | prim_CallMethod | prim_TypeCheck | prim_BailOut
  | prim_profile_ivalue | prim_profile | prim_GetAttr | prim_SetAttr | prim_ListUnpack
  | prim_TupleConstruct | prim_ListConstruct | prim_DictConstruct | prim_CreateObject
  | prim_isinstance | prim_TupleSlice | prim_fork | aten_warn | prim_Enter | prim_Exit
  | other_kind string

text \<open>Entries of the function table: a callee known to the IR, the lazily built
  function of a bailout (its index and the unoptimized graph), a forked subgraph.\<close>

datatype Function = GraphFn nat | BailoutFn int nat | ForkedFn (forked_graph: nat)

datatype jit_type =
    FunctionType (function_of: Function)
  | ClassType (attribute_slots: "(string \<times> nat) list") (methods: "(string \<times> Function) list")
  | TupleType (tuple_name: "string option")
  | OtherType nat

datatype IValue = IInt int | IString string | IOther nat

record Operator =
  hasOperation :: bool
  is_vararg :: bool
  schema_name :: string
  overload_name :: string
  schema_arguments :: "nat list"
  getOperation :: nat

datatype profile_cast = ProfileOp nat | ProfileIValueOp nat | NoProfile

record node_info =
  nid :: nat
  kind :: node_kind
  owningBlock :: nat
  topo_position :: int
  maybeOperator :: "Operator option"
  attr_index :: "int option"
  attr_types :: "jit_type list option"
  attr_name :: "string option"
  attr_beg :: "int option"
  attr_end :: "int option"
  attr_warn_id :: "int option"
  attr_Subgraph :: "nat option"
  profile_callback :: profile_cast

record value_info =
  vid :: nat
  vtype :: jit_type
  uses_size :: nat
  toIValue :: "IValue option"

text \<open>
  A use of a value carries the value and its defining node (\<^verbatim>\<open>input->node()\<close>); an
  output of a node is the value alone. The graph is acyclic, so the defining nodes
  unfold to a finite tree.
\<close>

datatype Node = Node (info: node_info) (inputs: "Val list") (outputs: "value_info list")
    (blocks: "Block list")
  and Val = Val (vinfo: value_info) (vnode: Node)
  and Block = Block (param_node: Node) (nodes: "Node list") (return_node: Node)

section \<open>The compiler state\<close>

record BailoutBlock =
  jf_instruction_index :: nat
  bb_instructions :: "Instruction list"

text \<open>
  The members of \<^verbatim>\<open>CodeImpl\<close> that the emitter reads or writes, named as in the
  source without the trailing underscore (\<open>instructions\<close> is \<^verbatim>\<open>instructions_\<close>, and so
  on); the \<^verbatim>\<open>instructions\<close> of a \<^verbatim>\<open>BailoutBlock\<close> are \<open>bb_instructions\<close>. \<open>can_emit_inline\<close> is
  the table of \<^verbatim>\<open>preprocess_\<close>; \<open>is_MobileCodeImpl\<close> is the dynamic class of the object
  (it selects the override of the virtual \<^verbatim>\<open>emitOperator\<close>);
  \<open>FLAGS_torch_jit_disable_warning_prints\<close> is the process-wide flag read by
  \<^verbatim>\<open>emitWarn\<close>. Nodes and values are keyed by their identities \<open>nid\<close> and \<open>vid\<close>.
\<close>

record CodeImpl =
  instructions :: "Instruction list"
  instructions_source :: "nat list"
  constant_table :: "IValue list"
  operator_table :: "nat list"
  function_table :: "Function list"
  forked_functions :: "Function list"
  type_table :: "jit_type list"
  profile_function_table :: "nat list"
  register_size :: int
  can_emit_inline :: "nat \<Rightarrow> bool"
  value_to_reg :: "nat \<rightharpoonup> int"
  op_to_num_specified_args :: "string \<rightharpoonup> nat"
  use_count :: "nat \<Rightarrow> nat"
  current_node :: node_info
  last_inserted_op :: "node_info option"
  bailout_blocks :: "BailoutBlock list"
  bailout_functions :: "Function list"
  is_MobileCodeImpl :: bool
  FLAGS_torch_jit_disable_warning_prints :: bool

section \<open>request_bailout\<close>

text \<open>
  The scan of \<^verbatim>\<open>request_bailout\<close>: \<open>instr_index\<close> runs over the instructions, \<open>count\<close>
  is decremented at every \<^verbatim>\<open>GUARD\<close> or \<^verbatim>\<open>FAIL_GUARD\<close>, and the instruction at which it
  is found to be zero gets the opcode \<^verbatim>\<open>FAIL_GUARD\<close>; the loop then stops.
\<close>

function request_bailout_loop :: "nat \<Rightarrow> nat \<Rightarrow> Instruction list \<Rightarrow> Instruction list" where
  "request_bailout_loop instr_index count ins =
     (if instr_index < length ins then
        (if op (ins ! instr_index) = GUARD \<or> op (ins ! instr_index) = FAIL_GUARD then
           (if count = 0 then ins[instr_index := (ins ! instr_index)\<lparr>op := FAIL_GUARD\<rparr>]
            else request_bailout_loop (instr_index + 1) (count - 1) ins)
         else request_bailout_loop (instr_index + 1) count ins)
      else ins)"
  by pat_completeness auto
termination
  by (relation "measure (\<lambda>(i, c, ins). length ins - i)") auto

definition request_bailout :: "nat \<Rightarrow> CodeImpl \<Rightarrow> CodeImpl" where
  "request_bailout index s =
     s\<lparr>instructions := request_bailout_loop 0 index (instructions s)\<rparr>"


text \<open>The instructions that the scan counts.\<close>

definition guard_slot :: "Instruction \<Rightarrow> bool" where
  "guard_slot i = (op i = GUARD \<or> op i = FAIL_GUARD)"

text \<open>
  The state that the constructor of \<^verbatim>\<open>CodeImpl\<close> builds before it calls \<^verbatim>\<open>run\<close>: empty
  tables, \<^verbatim>\<open>register_size_ = 0\<close>, \<^verbatim>\<open>current_node_\<close> the return node of the graph.
\<close>

definition init_CodeImpl :: "(nat \<Rightarrow> bool) \<Rightarrow> bool \<Rightarrow> Block \<Rightarrow> CodeImpl" where
  "init_CodeImpl inline_table warn_flag graph =
     \<lparr>instructions = [], instructions_source = [], constant_table = [], operator_table = [],
      function_table = [], forked_functions = [], type_table = [],
      profile_function_table = [], register_size = 0, can_emit_inline = inline_table,
      value_to_reg = Map.empty, op_to_num_specified_args = Map.empty,
      use_count = (\<lambda>_. 0), current_node = info (return_node graph),
      last_inserted_op = None, bailout_blocks = [], bailout_functions = [],
      is_MobileCodeImpl = False, FLAGS_torch_jit_disable_warning_prints = warn_flag\<rparr>"

section \<open>Errors and basic operations\<close>

text \<open>
  Every exception, failed assertion and out-of-range access of the source is a value:
  the emitter returns \<open>Inl\<close> of the error, or \<open>Inr\<close> of the new state.
\<close>

datatype error = InternalAssert | OutOfRange | MissingAttribute | BadCast
  | BadOptionalAccess | NoOperator | UndefinedBehaviour

definition andThen :: "error + 'a \<Rightarrow> ('a \<Rightarrow> error + 'b) \<Rightarrow> error + 'b" where
  "andThen m f = (case m of Inl e \<Rightarrow> Inl e | Inr a \<Rightarrow> f a)"

lemma andThen_cong [fundef_cong]:
  "m = m' \<Longrightarrow> (\<And>a. m' = Inr a \<Longrightarrow> f a = f' a) \<Longrightarrow> andThen m f = andThen m' f'"
  by (cases m') (simp_all add: andThen_def)

text \<open>\<^verbatim>\<open>.at(i)\<close>, an attribute accessor, and \<^verbatim>\<open>ArrayRef::slice\<close> (which checks its bounds).\<close>

definition vector_at :: "'a list \<Rightarrow> nat \<Rightarrow> error + 'a" where
  "vector_at xs i = (if i < length xs then Inr (xs ! i) else Inl OutOfRange)"

definition get_attr :: "'a option \<Rightarrow> error + 'a" where
  "get_attr a = (case a of None \<Rightarrow> Inl MissingAttribute | Some v \<Rightarrow> Inr v)"

definition slice :: "'a list \<Rightarrow> nat \<Rightarrow> nat \<Rightarrow> error + 'a list" where
  "slice xs n m = (if n + m \<le> length xs then Inr (take m (drop n xs)) else Inl InternalAssert)"

definition slice_from :: "'a list \<Rightarrow> nat \<Rightarrow> error + 'a list" where
  "slice_from xs n = (if n \<le> length xs then Inr (drop n xs) else Inl InternalAssert)"

definition isAfter :: "node_info \<Rightarrow> node_info \<Rightarrow> bool" where
  "isAfter n m = (topo_position m < topo_position n)"

definition insertInstruction :: "OpCode \<Rightarrow> int \<Rightarrow> nat \<Rightarrow> CodeImpl \<Rightarrow> error + CodeImpl" where
  "insertInstruction opc x n s =
     (let s1 = s\<lparr>instructions := instructions s @
                     [\<lparr>op = opc, X = safe_narrow_cast_int32 x, N = safe_narrow_cast_uint16 n\<rparr>],
                 instructions_source := instructions_source s @ [nid (current_node s)]\<rparr>
      in if opc = OP then
           (case last_inserted_op s1 of
              None \<Rightarrow> Inr (s1\<lparr>last_inserted_op := Some (current_node s1)\<rparr>)
            | Some l \<Rightarrow>
                if nid (current_node s1) \<noteq> nid l \<and> owningBlock (current_node s1) = owningBlock l
                   \<and> \<not> isAfter (current_node s1) l
                then Inl InternalAssert
                else Inr (s1\<lparr>last_inserted_op := Some (current_node s1)\<rparr>))
         else Inr s1)"

text \<open>\<^verbatim>\<open>instructions_[i].X = x\<close>, the in-place patch of a jump offset: the assigned
  \<^verbatim>\<open>size_t\<close> difference is converted to the 32-bit field.\<close>

definition set_X :: "nat \<Rightarrow> int \<Rightarrow> CodeImpl \<Rightarrow> error + CodeImpl" where
  "set_X i x s =
     (if i < length (instructions s)
      then Inr (s\<lparr>instructions := (instructions s)[i := (instructions s ! i)\<lparr>X := word_of_int x\<rparr>]\<rparr>)
      else Inl UndefinedBehaviour)"

definition truncateInstructions :: "nat \<Rightarrow> CodeImpl \<Rightarrow> CodeImpl" where
  "truncateInstructions sz s =
     (let k = length (instructions s) - sz
      in s\<lparr>instructions := take (length (instructions s) - k) (instructions s),
           instructions_source := take (length (instructions_source s) - k) (instructions_source s)\<rparr>)"

definition createBailoutBlock :: "nat \<Rightarrow> CodeImpl \<Rightarrow> error + CodeImpl" where
  "createBailoutBlock jf_index s =
     (if jf_index + 1 \<le> length (instructions s)
      then Inr (truncateInstructions (jf_index + 1)
             (s\<lparr>bailout_blocks := bailout_blocks s @
                  [\<lparr>jf_instruction_index = jf_index,
                    bb_instructions = drop (jf_index + 1) (instructions s)\<rparr>]\<rparr>))
      else Inl UndefinedBehaviour)"

fun allocRegs_loop :: "nat list \<Rightarrow> CodeImpl \<Rightarrow> error + CodeImpl" where
  "allocRegs_loop [] s = Inr s"
| "allocRegs_loop (v # vs) s =
     (if value_to_reg s v \<noteq> None then Inl InternalAssert
      else allocRegs_loop vs
             (s\<lparr>register_size := register_size s + 1,
                value_to_reg := (value_to_reg s)(v \<mapsto> register_size s + 1)\<rparr>))"

definition allocRegs :: "nat list \<Rightarrow> CodeImpl \<Rightarrow> error + (int \<times> CodeImpl)" where
  "allocRegs vs s =
     (let result = register_size s + 1
      in andThen (allocRegs_loop vs s) (\<lambda>s'. Inr (result, s')))"

definition registerFor :: "nat \<Rightarrow> CodeImpl \<Rightarrow> error + int" where
  "registerFor v s = (case value_to_reg s v of None \<Rightarrow> Inl OutOfRange | Some r \<Rightarrow> Inr r)"

definition emitStoreOutputs :: "Node \<Rightarrow> CodeImpl \<Rightarrow> error + CodeImpl" where
  "emitStoreOutputs node s =
     (let n = length (outputs node)
      in if n = 0 then Inr s
         else andThen (allocRegs (map vid (outputs node)) s) (\<lambda>(regs, s).
                if n = 1 then insertInstruction STORE regs 0 s
                else insertInstruction STOREN regs (length (outputs node)) s))"

definition insertConstant :: "IValue \<Rightarrow> CodeImpl \<Rightarrow> int \<times> CodeImpl" where
  "insertConstant v s =
     (int (length (constant_table s)), s\<lparr>constant_table := constant_table s @ [v]\<rparr>)"

text \<open>\<^verbatim>\<open>node->output()\<close> asserts that the node has exactly one output.\<close>

definition node_output :: "Node \<Rightarrow> error + value_info" where
  "node_output node = (case outputs node of [v] \<Rightarrow> Inr v | _ \<Rightarrow> Inl InternalAssert)"

definition node_input :: "Node \<Rightarrow> error + Val" where
  "node_input node = (case inputs node of [v] \<Rightarrow> Inr v | _ \<Rightarrow> Inl InternalAssert)"

definition is_FunctionType :: "jit_type \<Rightarrow> bool" where
  "is_FunctionType t = (case t of FunctionType _ \<Rightarrow> True | _ \<Rightarrow> False)"

definition emitConstant :: "Node \<Rightarrow> CodeImpl \<Rightarrow> error + CodeImpl" where
  "emitConstant node s =
     andThen (node_output node) (\<lambda>out.
       if is_FunctionType (vtype out) then Inr s
       else (case toIValue out of
               None \<Rightarrow> Inl BadOptionalAccess
             | Some v \<Rightarrow>
                 (let (slot, s) = insertConstant v s
                  in Inr (s\<lparr>value_to_reg := (value_to_reg s)(vid out \<mapsto> slot)\<rparr>))))"

definition emitType :: "jit_type \<Rightarrow> CodeImpl \<Rightarrow> nat \<times> CodeImpl" where
  "emitType t s = (length (type_table s), s\<lparr>type_table := type_table s @ [t]\<rparr>)"

fun emitTypes :: "jit_type list \<Rightarrow> CodeImpl \<Rightarrow> CodeImpl" where
  "emitTypes [] s = s"
| "emitTypes (t # ts) s = emitTypes ts (snd (emitType t s))"

definition emitCreateObject :: "Node \<Rightarrow> CodeImpl \<Rightarrow> error + CodeImpl" where
  "emitCreateObject node s =
     andThen (node_output node) (\<lambda>out.
       (let (r, s) = emitType (vtype out) s in insertInstruction CREATE_OBJECT (int r) 0 s))"

definition emitExit :: "Node \<Rightarrow> CodeImpl \<Rightarrow> error + CodeImpl" where
  "emitExit node s = insertInstruction EXIT 0 0 s"

text \<open>The class-type accessors: \<^verbatim>\<open>expect<ClassType>()\<close> fails on another type,
  \<^verbatim>\<open>getAttributeSlot\<close> and \<^verbatim>\<open>getMethod\<close> on an unknown name.\<close>

definition expect_ClassType :: "jit_type \<Rightarrow> error + jit_type" where
  "expect_ClassType t = (case t of ClassType slots ms \<Rightarrow> Inr t | _ \<Rightarrow> Inl BadCast)"

definition getAttributeSlot :: "jit_type \<Rightarrow> string \<Rightarrow> error + nat" where
  "getAttributeSlot t field =
     (case map_of (attribute_slots t) field of None \<Rightarrow> Inl MissingAttribute | Some k \<Rightarrow> Inr k)"

definition getMethod :: "(string \<times> Function) list \<Rightarrow> string \<Rightarrow> error + Function" where
  "getMethod ms name = (case map_of ms name of None \<Rightarrow> Inl MissingAttribute | Some f \<Rightarrow> Inr f)"


section \<open>The emitter\<close>

lemma size_inputs [termination_simp]: "size_list size (inputs n) < size n"
  by (cases n) simp

lemma size_vnode [termination_simp]: "size (vnode v) < size v"
  by (cases v) simp

lemma size_blocks_at [termination_simp]: "vector_at (blocks n) k = Inr b \<Longrightarrow> size b < size n"
proof (cases n)
  case (Node i ins outs bs)
  assume "vector_at (blocks n) k = Inr b"
  then have "b \<in> set bs" using Node by (auto simp: vector_at_def split: if_splits)
  then have "size b \<le> size_list size bs" by (simp add: size_list_estimation')
  then show ?thesis using Node by simp
qed

lemma size_list_drop: "size_list f (drop k xs) \<le> size_list f xs"
  by (induction xs arbitrary: k) (auto simp: drop_Cons split: nat.splits intro: le_SucI trans_le_add2)

lemma size_list_take: "size_list f (take k xs) \<le> size_list f xs"
  by (induction xs arbitrary: k) (auto simp: take_Cons split: nat.splits)

lemma size_slice [termination_simp]:
  "slice (inputs n) k m = Inr xs \<Longrightarrow> size_list size xs < size n"
  using size_list_take[of size m "drop k (inputs n)"] size_list_drop[of size k "inputs n"] size_inputs[of n]
  by (auto simp: slice_def split: if_splits)

lemma size_slice_from [termination_simp]:
  "slice_from (inputs n) k = Inr xs \<Longrightarrow> size_list size xs < size n"
  using size_list_drop[of size k "inputs n"] size_inputs[of n]
  by (auto simp: slice_from_def split: if_splits)

function emitUse :: "Val \<Rightarrow> bool \<Rightarrow> CodeImpl \<Rightarrow> error + CodeImpl"
  and emitLoadInputs :: "Val list \<Rightarrow> CodeImpl \<Rightarrow> error + CodeImpl"
  and emitDrop :: "Val list \<Rightarrow> CodeImpl \<Rightarrow> error + CodeImpl"
  and CodeImpl_emitOperator :: "Node \<Rightarrow> CodeImpl \<Rightarrow> error + CodeImpl"
  and MobileCodeImpl_emitOperator :: "Node \<Rightarrow> CodeImpl \<Rightarrow> error + CodeImpl"
  and emitWait :: "Node \<Rightarrow> CodeImpl \<Rightarrow> error + CodeImpl"
  and emitIf :: "Node \<Rightarrow> CodeImpl \<Rightarrow> error + CodeImpl"
  and emitLoop :: "Node \<Rightarrow> CodeImpl \<Rightarrow> error + CodeImpl"
  and emitCall :: "Function \<Rightarrow> Val list \<Rightarrow> CodeImpl \<Rightarrow> error + CodeImpl"
  and emitNodeAtBlockLevel :: "Node \<Rightarrow> CodeImpl \<Rightarrow> error + CodeImpl"
  and emitTypeCheck :: "Node \<Rightarrow> CodeImpl \<Rightarrow> error + CodeImpl"
  and emitGuard :: "Node \<Rightarrow> CodeImpl \<Rightarrow> error + (nat \<times> CodeImpl)"
  and emitBailOut :: "Node \<Rightarrow> CodeImpl \<Rightarrow> error + CodeImpl"
  and emitProfile :: "Node \<Rightarrow> CodeImpl \<Rightarrow> error + CodeImpl"
  and emitGetAttr :: "Node \<Rightarrow> CodeImpl \<Rightarrow> error + CodeImpl"
  and emitSetAttr :: "Node \<Rightarrow> CodeImpl \<Rightarrow> error + CodeImpl"
  and emitInterfaceCall :: "string \<Rightarrow> Val list \<Rightarrow> CodeImpl \<Rightarrow> error + CodeImpl"
  and emitListUnpack :: "Node \<Rightarrow> CodeImpl \<Rightarrow> error + CodeImpl"
  and emitTupleConstruct :: "Node \<Rightarrow> CodeImpl \<Rightarrow> error + CodeImpl"
  and emitContainerConstruct :: "OpCode \<Rightarrow> Node \<Rightarrow> CodeImpl \<Rightarrow> error + CodeImpl"
  and emitIsinstance :: "Node \<Rightarrow> CodeImpl \<Rightarrow> error + CodeImpl"
  and emitTupleSlice :: "Node \<Rightarrow> CodeImpl \<Rightarrow> error + CodeImpl"
  and emitFork :: "Node \<Rightarrow> CodeImpl \<Rightarrow> error + CodeImpl"
  and emitWarn :: "Node \<Rightarrow> CodeImpl \<Rightarrow> error + CodeImpl"
  and emitEnter :: "Node \<Rightarrow> CodeImpl \<Rightarrow> error + CodeImpl"
  and emitNode :: "Node \<Rightarrow> CodeImpl \<Rightarrow> error + CodeImpl"
  and emitCodeForBlock :: "Block \<Rightarrow> CodeImpl \<Rightarrow> error + CodeImpl"
  and emitNodes :: "Node list \<Rightarrow> CodeImpl \<Rightarrow> error + CodeImpl"
where
  "emitUse input do_drop s =
     (if can_emit_inline s (nid (info (vnode input))) then
        andThen (emitNode (vnode input) s) (\<lambda>s.
          if do_drop then insertInstruction DROP 0 0 s else Inr s)
      else
        andThen (registerFor (vid (vinfo input)) s) (\<lambda>reg.
          let s = s\<lparr>use_count := (use_count s)(vid (vinfo input) := use_count s (vid (vinfo input)) + 1)\<rparr>;
              moved = (uses_size (vinfo input) = use_count s (vid (vinfo input)));
              opc = (if kind (info (vnode input)) = prim_Constant then LOADC
                     else if moved then MOVE else LOAD);
              opc = (if do_drop then DROPR else opc)
          in insertInstruction opc reg 0 s))"
| "emitLoadInputs [] s = Inr s"
| "emitLoadInputs (input # rest) s =
     andThen (emitUse input False s) (\<lambda>s. emitLoadInputs rest s)"
| "emitDrop [] s = Inr s"
| "emitDrop (input # rest) s =
     andThen (emitUse input True s) (\<lambda>s. emitDrop rest s)"
| "CodeImpl_emitOperator node s =
     andThen (emitLoadInputs (inputs node) s) (\<lambda>s.
       case maybeOperator (info node) of
         None \<Rightarrow> Inl NoOperator
       | Some oper \<Rightarrow>
           andThen
             (if hasOperation oper \<and> is_vararg oper
              then insertInstruction OPN (int (length (operator_table s))) (length (inputs node)) s
              else insertInstruction OP (int (length (operator_table s))) 0 s)
             (\<lambda>s. Inr (s\<lparr>operator_table := operator_table s @ [getOperation oper]\<rparr>)))"
| "MobileCodeImpl_emitOperator node s = CodeImpl_emitOperator node s"
| "emitWait node s =
     andThen (emitLoadInputs (inputs node) s) (\<lambda>s. insertInstruction WAIT 0 0 s)"
| "emitIf node s =
     andThen (emitLoadInputs (inputs node) s) (\<lambda>s.
       let start_if = length (instructions s) in
       andThen (insertInstruction JF 0 0 s) (\<lambda>s.
       andThen (vector_at (blocks node) 0) (\<lambda>true_block.
       andThen (emitCodeForBlock true_block s) (\<lambda>s.
       andThen (insertInstruction JMP 0 0 s) (\<lambda>s.
       let start_else = length (instructions s) in
       andThen (set_X start_if (int start_else - int start_if) s) (\<lambda>s.
       andThen (vector_at (blocks node) 1) (\<lambda>false_block.
       andThen (emitCodeForBlock false_block s) (\<lambda>s.
         set_X (start_else - 1) (int (length (instructions s)) - int (start_else - 1)) s))))))))"
| "emitLoop node s =
     (let (zero, s) = insertConstant (IInt 0) s in
      andThen (insertInstruction LOADC zero 0 s) (\<lambda>s.
      andThen (emitLoadInputs (inputs node) s) (\<lambda>s.
      let start = length (instructions s) in
      andThen (insertInstruction LOOP 0 (length (inputs node)) s) (\<lambda>s.
      andThen (vector_at (blocks node) 0) (\<lambda>body.
      andThen (emitCodeForBlock body s) (\<lambda>s.
      andThen (insertInstruction JMP (int start - int (length (instructions s))) 0 s) (\<lambda>s.
        set_X start (int (length (instructions s)) - int start) s)))))))"
| "emitCall func args s =
     andThen (emitLoadInputs args s) (\<lambda>s.
     andThen (insertInstruction CALL (int (length (function_table s))) 0 s) (\<lambda>s.
       Inr (s\<lparr>function_table := function_table s @ [func]\<rparr>)))"
| "emitNodeAtBlockLevel node s =
     (let old_value = current_node s; s = s\<lparr>current_node := info node\<rparr> in
      andThen
        (case kind (info node) of
           prim_Constant \<Rightarrow> emitConstant node s
         | prim_Return \<Rightarrow> emitLoadInputs (inputs node) s
         | _ \<Rightarrow>
             if \<not> can_emit_inline s (nid (info node))
             then andThen (emitNode node s) (\<lambda>s. emitStoreOutputs node s)
             else Inr s)
        (\<lambda>s. Inr (s\<lparr>current_node := old_value\<rparr>)))"
| "emitTypeCheck node s =
     (let num_inputs = length (inputs node) in
      if \<not> (num_inputs \<noteq> 0 \<and> num_inputs + 1 = length (outputs node)) then Inl InternalAssert
      else
        andThen (emitLoadInputs (inputs node) s) (\<lambda>s.
        let types_start = length (type_table s) in
        andThen (get_attr (attr_types (info node))) (\<lambda>types.
          if length types < num_inputs then Inl UndefinedBehaviour
          else insertInstruction TYPECHECK (int types_start) num_inputs
                 (emitTypes (take num_inputs types) s))))"
| "emitGuard node s =
     andThen (slice (inputs node) 1 1) (\<lambda>guarded.
     andThen (emitLoadInputs guarded s) (\<lambda>s.
     andThen (vector_at (outputs node) 0) (\<lambda>out.
     let (t, s) = emitType (vtype out) s in
     andThen (insertInstruction GUARD (int t) 0 s) (\<lambda>s.
     andThen (insertInstruction JF 0 0 s) (\<lambda>s.
       Inr (length (instructions s) - 1, s))))))"
| "emitBailOut node s =
     andThen (emitGuard node s) (\<lambda>(jf_index, s).
     andThen (vector_at (inputs node) 0) (\<lambda>graph_input.
     andThen (get_attr (attr_Subgraph (info (vnode graph_input)))) (\<lambda>unoptimized_graph.
     andThen (slice_from (inputs node) 2) (\<lambda>rest.
     andThen (emitLoadInputs rest s) (\<lambda>s.
     andThen (insertInstruction TAIL_CALL (int (length (function_table s))) 0 s) (\<lambda>s.
     if kind (info node) \<noteq> prim_BailOut then Inl InternalAssert
     else
       andThen (get_attr (attr_index (info node))) (\<lambda>bailout_index.
       if \<not> 0 \<le> bailout_index then Inl InternalAssert
       else
         (let func = BailoutFn bailout_index unoptimized_graph;
              s = s\<lparr>function_table := function_table s @ [func],
                    bailout_functions := bailout_functions s @ [func]\<rparr>
          in createBailoutBlock jf_index s))))))))"
| "emitProfile node s =
     andThen (emitLoadInputs (inputs node) s) (\<lambda>s.
     andThen (insertInstruction PROFILE_OP (int (length (profile_function_table s))) 0 s) (\<lambda>s.
       case profile_callback (info node) of
         ProfileOp cb \<Rightarrow> Inr (s\<lparr>profile_function_table := profile_function_table s @ [cb]\<rparr>)
       | ProfileIValueOp cb \<Rightarrow> Inr (s\<lparr>profile_function_table := profile_function_table s @ [cb]\<rparr>)
       | NoProfile \<Rightarrow> Inl InternalAssert))"
| "emitGetAttr node s =
     andThen (emitLoadInputs (inputs node) s) (\<lambda>s.
     andThen (node_input node) (\<lambda>obj.
     andThen (expect_ClassType (vtype (vinfo obj))) (\<lambda>type.
     andThen (get_attr (attr_name (info node))) (\<lambda>field.
     andThen (getAttributeSlot type field) (\<lambda>slot.
       insertInstruction GET_ATTR (int slot) 0 s)))))"
| "emitSetAttr node s =
     andThen (emitLoadInputs (inputs node) s) (\<lambda>s.
     andThen (vector_at (inputs node) 0) (\<lambda>obj.
     andThen (expect_ClassType (vtype (vinfo obj))) (\<lambda>type.
     andThen (get_attr (attr_name (info node))) (\<lambda>field.
     andThen (getAttributeSlot type field) (\<lambda>slot.
       insertInstruction SET_ATTR (int slot) 0 s)))))"
| "emitInterfaceCall method_name_str args s =
     andThen (emitLoadInputs args s) (\<lambda>s.
       let (method_name, s) = insertConstant (IString method_name_str) s
       in insertInstruction INTERFACE_CALL method_name (length args) s)"
| "emitListUnpack node s =
     andThen (emitLoadInputs (inputs node) s) (\<lambda>s.
       insertInstruction LIST_UNPACK (int (length (outputs node))) 0 s)"
| "emitTupleConstruct node s =
     andThen (node_output node) (\<lambda>out.
       case vtype out of
         TupleType name \<Rightarrow>
           if name \<noteq> None then emitContainerConstruct NAMED_TUPLE_CONSTRUCT node s
           else andThen (emitLoadInputs (inputs node) s) (\<lambda>s.
                  insertInstruction TUPLE_CONSTRUCT (int (length (inputs node))) 0 s)
       | _ \<Rightarrow> Inl BadCast)"
| "emitContainerConstruct opc node s =
     andThen (emitLoadInputs (inputs node) s) (\<lambda>s.
     andThen (node_output node) (\<lambda>out.
       let (t, s) = emitType (vtype out) s
       in insertInstruction opc (int t) (length (inputs node)) s))"
| "emitIsinstance node s =
     andThen (emitLoadInputs (inputs node) s) (\<lambda>s.
     andThen (get_attr (attr_types (info node))) (\<lambda>types.
       let types_start = length (type_table s)
       in insertInstruction ISINSTANCE (int types_start) (length types) (emitTypes types s)))"
| "emitTupleSlice node s =
     andThen (emitLoadInputs (inputs node) s) (\<lambda>s.
     andThen (get_attr (attr_beg (info node))) (\<lambda>beg_ind.
     andThen (get_attr (attr_end (info node))) (\<lambda>end_ind.
       insertInstruction TUPLE_SLICE beg_ind (nat ((end_ind - beg_ind) mod 2 ^ 64)) s)))"
| "emitFork node s =
     andThen (emitLoadInputs (inputs node) s) (\<lambda>s.
     andThen (get_attr (attr_Subgraph (info node))) (\<lambda>subgraph.
       let s = s\<lparr>forked_functions := forked_functions s @ [ForkedFn subgraph]\<rparr>;
           s = s\<lparr>function_table := function_table s @ [last (forked_functions s)]\<rparr>
       in insertInstruction FORK (int (length (function_table s)) - 1) (length (inputs node)) s))"
| "emitWarn node s =
     (if FLAGS_torch_jit_disable_warning_prints s then Inr s
      else
        andThen (emitLoadInputs (inputs node) s) (\<lambda>s.
          let idx = (case attr_warn_id (info node) of
                       None \<Rightarrow> - 1
                     | Some w \<Rightarrow> sint (word_of_int w :: 32 word))
          in insertInstruction WARN idx 0 s))"
| "emitEnter node s =
     andThen (emitLoadInputs (inputs node) s) (\<lambda>s. insertInstruction ENTER 0 0 s)"
| "emitNode node s =
     (let old_value = current_node s; s = s\<lparr>current_node := info node\<rparr> in
      andThen
        (case kind (info node) of
           prim_Drop \<Rightarrow> emitDrop (inputs node) s
         | prim_Constant \<Rightarrow> emitConstant node s
         | prim_If \<Rightarrow> emitIf node s
         | prim_Loop \<Rightarrow> emitLoop node s
         | aten_wait \<Rightarrow> emitWait node s
         | prim_Param \<Rightarrow> Inr s
         | prim_CallFunction \<Rightarrow>
             andThen (vector_at (inputs node) 0) (\<lambda>callee.
             andThen (if is_FunctionType (vtype (vinfo callee)) then Inr (function_of (vtype (vinfo callee)))
                      else Inl BadCast) (\<lambda>func.
             andThen (slice_from (inputs node) 1) (\<lambda>args. emitCall func args s)))
         | prim_CallMethod \<Rightarrow>
             andThen (vector_at (inputs node) 0) (\<lambda>self.
             andThen (get_attr (attr_name (info node))) (\<lambda>name.
               case vtype (vinfo self) of
                 ClassType slots ms \<Rightarrow>
                   andThen (getMethod ms name) (\<lambda>func. emitCall func (inputs node) s)
               | _ \<Rightarrow> emitInterfaceCall name (inputs node) s))
         | prim_TypeCheck \<Rightarrow> emitTypeCheck node s
         | prim_BailOut \<Rightarrow> emitBailOut node s
         | prim_profile_ivalue \<Rightarrow> emitProfile node s
         | prim_profile \<Rightarrow> emitProfile node s
         | prim_GetAttr \<Rightarrow> emitGetAttr node s
         | prim_SetAttr \<Rightarrow> emitSetAttr node s
         | prim_ListUnpack \<Rightarrow> emitListUnpack node s
         | prim_TupleConstruct \<Rightarrow> emitTupleConstruct node s
         | prim_ListConstruct \<Rightarrow> emitContainerConstruct LIST_CONSTRUCT node s
         | prim_DictConstruct \<Rightarrow> emitContainerConstruct DICT_CONSTRUCT node s
         | prim_CreateObject \<Rightarrow> emitCreateObject node s
         | prim_isinstance \<Rightarrow> emitIsinstance node s
         | prim_TupleSlice \<Rightarrow> emitTupleSlice node s
         | prim_fork \<Rightarrow> emitFork node s
         | aten_warn \<Rightarrow> emitWarn node s
         | prim_Enter \<Rightarrow> emitEnter node s
         | prim_Exit \<Rightarrow> emitExit node s
         | _ \<Rightarrow>
             if is_MobileCodeImpl s then MobileCodeImpl_emitOperator node s
             else CodeImpl_emitOperator node s)
        (\<lambda>s. Inr (s\<lparr>current_node := old_value\<rparr>)))"
| "emitCodeForBlock (Block param ns ret) s =
     andThen (emitNodeAtBlockLevel param s) (\<lambda>s.
     andThen (emitNodes ns s) (\<lambda>s.
       emitNodeAtBlockLevel ret s))"
| "emitNodes [] s = Inr s"
| "emitNodes (node # rest) s =
     andThen (emitNodeAtBlockLevel node s) (\<lambda>s. emitNodes rest s)"
  by pat_completeness
    (simp_all only: sum.inject sum.distinct prod.inject list.inject list.distinct Block.inject
       simp_thms)
termination
  by (relation "inv_image (less_than <*lex*> less_than)
       (case_sum
        (case_sum
         (case_sum
          (case_sum
           (\<lambda>(v, d, s). (size v, 0::nat))
           (case_sum
            (\<lambda>(vs, s). (size_list size vs, 0::nat))
            (\<lambda>(vs, s). (size_list size vs, 0::nat))))
          (case_sum
           (case_sum
            (\<lambda>(n, s). (size n, 1::nat))
            (\<lambda>(n, s). (size n, 2::nat)))
           (case_sum
            (\<lambda>(n, s). (size n, 1::nat))
            (\<lambda>(n, s). (size n, 1::nat)))))
         (case_sum
          (case_sum
           (\<lambda>(n, s). (size n, 1::nat))
           (case_sum
            (\<lambda>(f, vs, s). (size_list size vs, 1::nat))
            (\<lambda>(n, s). (size n, 4::nat))))
          (case_sum
           (case_sum
            (\<lambda>(n, s). (size n, 1::nat))
            (\<lambda>(n, s). (size n, 1::nat)))
           (case_sum
            (\<lambda>(n, s). (size n, 2::nat))
            (\<lambda>(n, s). (size n, 1::nat))))))
        (case_sum
         (case_sum
          (case_sum
           (\<lambda>(n, s). (size n, 1::nat))
           (case_sum
            (\<lambda>(n, s). (size n, 1::nat))
            (\<lambda>(f, vs, s). (size_list size vs, 1::nat))))
          (case_sum
           (case_sum
            (\<lambda>(n, s). (size n, 1::nat))
            (\<lambda>(n, s). (size n, 2::nat)))
           (case_sum
            (\<lambda>(c, n, s). (size n, 1::nat))
            (\<lambda>(n, s). (size n, 1::nat)))))
         (case_sum
          (case_sum
           (\<lambda>(n, s). (size n, 1::nat))
           (case_sum
            (\<lambda>(n, s). (size n, 1::nat))
            (\<lambda>(n, s). (size n, 1::nat))))
          (case_sum
           (case_sum
            (\<lambda>(n, s). (size n, 1::nat))
            (\<lambda>(n, s). (size n, 3::nat)))
           (case_sum
            (\<lambda>(b, s). (size b, 0::nat))
            (\<lambda>(ns, s). (size_list size ns, 0::nat)))))))")
     (simp_all add: wf_lex_prod size_inputs size_vnode size_blocks_at size_slice size_slice_from)

declare emitUse.simps [simp del] emitLoadInputs.simps [simp del] emitDrop.simps [simp del]
  CodeImpl_emitOperator.simps [simp del] MobileCodeImpl_emitOperator.simps [simp del]
  emitWait.simps [simp del] emitIf.simps [simp del] emitLoop.simps [simp del]
  emitCall.simps [simp del] emitNodeAtBlockLevel.simps [simp del]
  emitTypeCheck.simps [simp del] emitGuard.simps [simp del] emitBailOut.simps [simp del]
  emitProfile.simps [simp del] emitGetAttr.simps [simp del] emitSetAttr.simps [simp del]
  emitInterfaceCall.simps [simp del] emitListUnpack.simps [simp del]
  emitTupleConstruct.simps [simp del] emitContainerConstruct.simps [simp del]
  emitIsinstance.simps [simp del] emitTupleSlice.simps [simp del] emitFork.simps [simp del]
  emitWarn.simps [simp del] emitEnter.simps [simp del] emitNode.simps [simp del]
  emitCodeForBlock.simps [simp del] emitNodes.simps [simp del]

section \<open>Finishing the program\<close>

text \<open>
  \<^verbatim>\<open>insertBailoutBlocks\<close>: for every deferred block, in the order of \<^verbatim>\<open>bailout_blocks_\<close>,
  the instruction at its \<^verbatim>\<open>jf_instruction_index\<close> must be a \<^verbatim>\<open>JF\<close>; its \<^verbatim>\<open>X\<close> becomes the
  distance to the current end of the program, and the block is appended there.
\<close>

fun insertBailoutBlocks_loop :: "BailoutBlock list \<Rightarrow> CodeImpl \<Rightarrow> error + CodeImpl" where
  "insertBailoutBlocks_loop [] s = Inr s"
| "insertBailoutBlocks_loop (block # rest) s =
     (let jf = jf_instruction_index block in
      if \<not> jf < length (instructions s) then Inl UndefinedBehaviour
      else if op (instructions s ! jf) \<noteq> JF then Inl InternalAssert
      else
        andThen (set_X jf (int (length (instructions s)) - int jf) s) (\<lambda>s.
          if \<not> jf < length (instructions_source s) then Inl UndefinedBehaviour
          else insertBailoutBlocks_loop rest
                 (s\<lparr>instructions := instructions s @ bb_instructions block,
                    instructions_source := instructions_source s @
                      replicate (length (bb_instructions block)) (instructions_source s ! jf)\<rparr>)))"

definition insertBailoutBlocks :: "CodeImpl \<Rightarrow> error + CodeImpl" where
  "insertBailoutBlocks s = insertBailoutBlocks_loop (bailout_blocks s) s"

text \<open>\<^verbatim>\<open>CodeImpl::run\<close> on the graph's root block, and the constructor that calls it.\<close>

definition CodeImpl_run :: "Block \<Rightarrow> CodeImpl \<Rightarrow> error + CodeImpl" where
  "CodeImpl_run graph s =
     andThen (emitCodeForBlock graph s) (\<lambda>s.
     andThen (insertInstruction RET 0 0 s) (\<lambda>s.
       insertBailoutBlocks s))"

definition new_CodeImpl :: "(nat \<Rightarrow> bool) \<Rightarrow> bool \<Rightarrow> Block \<Rightarrow> bool \<Rightarrow> error + CodeImpl" where
  "new_CodeImpl inline_table warn_flag graph emit_instructions =
     (let s = init_CodeImpl inline_table warn_flag graph
      in if emit_instructions then CodeImpl_run graph s else Inr s)"

section \<open>The mobile pre-pass\<close>

text \<open>
  Modelled from the spec: \<^verbatim>\<open>DepthFirstGraphNodeIterator\<close> is declared in
  \<^verbatim>\<open>graph_iterator.h\<close>, outside the sources. It is taken to yield every node of the
  graph's blocks once, the nodes of nested blocks included, a node before the nodes of
  its blocks.
\<close>

fun DepthFirst_node :: "Node \<Rightarrow> Node list"
  and DepthFirst_nodes :: "Node list \<Rightarrow> Node list"
  and DepthFirst_block :: "Block \<Rightarrow> Node list"
  and DepthFirst_blocks :: "Block list \<Rightarrow> Node list"
where
  "DepthFirst_node (Node i ins outs bs) = Node i ins outs bs # DepthFirst_blocks bs"
| "DepthFirst_nodes [] = []"
| "DepthFirst_nodes (n # ns) = DepthFirst_node n @ DepthFirst_nodes ns"
| "DepthFirst_block (Block p ns r) = DepthFirst_nodes ns"
| "DepthFirst_blocks [] = []"
| "DepthFirst_blocks (b # bs) = DepthFirst_block b @ DepthFirst_blocks bs"

definition DepthFirstGraphNodeIterator :: "Block \<Rightarrow> Node list" where
  "DepthFirstGraphNodeIterator graph = DepthFirst_block graph"

definition unique_name :: "Operator \<Rightarrow> string" where
  "unique_name op_schema =
     (if overload_name op_schema \<noteq> []
      then schema_name op_schema @ ''.'' @ overload_name op_schema
      else schema_name op_schema)"

text \<open>
  \<^verbatim>\<open>process_ops_for_mobile\<close>. \<^verbatim>\<open>CalculateNecessaryArgs\<close> is declared outside the sources
  and is a parameter here: a function of the schema's arguments and the call's inputs.
  \<^verbatim>\<open>insert\<close> leaves an existing entry as it is and returns it.
\<close>

fun process_ops_loop :: "(nat list \<Rightarrow> Val list \<Rightarrow> nat) \<Rightarrow> Node list \<Rightarrow> CodeImpl \<Rightarrow> CodeImpl" where
  "process_ops_loop CalculateNecessaryArgs [] s = s"
| "process_ops_loop CalculateNecessaryArgs (node # rest) s =
     process_ops_loop CalculateNecessaryArgs rest
       (case maybeOperator (info node) of
          None \<Rightarrow> s
        | Some op_schema \<Rightarrow>
            if \<not> is_vararg op_schema then
              (let numInclude = CalculateNecessaryArgs (schema_arguments op_schema) (inputs node);
                   unique = unique_name op_schema;
                   prev_value = (case op_to_num_specified_args s unique of
                                   None \<Rightarrow> 0 | Some v \<Rightarrow> v)
               in s\<lparr>op_to_num_specified_args :=
                      (op_to_num_specified_args s)(unique \<mapsto> max numInclude prev_value)\<rparr>)
            else s)"

definition process_ops_for_mobile ::
    "(nat list \<Rightarrow> Val list \<Rightarrow> nat) \<Rightarrow> Block \<Rightarrow> CodeImpl \<Rightarrow> CodeImpl" where
  "process_ops_for_mobile CalculateNecessaryArgs graph s =
     process_ops_loop CalculateNecessaryArgs (DepthFirstGraphNodeIterator graph) s"

definition MobileCodeImpl_run ::
    "(nat list \<Rightarrow> Val list \<Rightarrow> nat) \<Rightarrow> Block \<Rightarrow> CodeImpl \<Rightarrow> error + CodeImpl" where
  "MobileCodeImpl_run CalculateNecessaryArgs graph s =
     (let s = process_ops_for_mobile CalculateNecessaryArgs graph s in
      andThen (emitCodeForBlock graph s) (\<lambda>s.
      andThen (insertInstruction RET 0 0 s) (\<lambda>s.
        insertBailoutBlocks s)))"

definition new_MobileCodeImpl ::
    "(nat list \<Rightarrow> Val list \<Rightarrow> nat) \<Rightarrow> (nat \<Rightarrow> bool) \<Rightarrow> bool \<Rightarrow> Block \<Rightarrow> error + CodeImpl" where
  "new_MobileCodeImpl CalculateNecessaryArgs inline_table warn_flag graph =
     andThen (new_CodeImpl inline_table warn_flag graph False) (\<lambda>s.
       MobileCodeImpl_run CalculateNecessaryArgs graph (s\<lparr>is_MobileCodeImpl := True\<rparr>))"

section \<open>Example inputs\<close>

definition plain_info :: "nat \<Rightarrow> node_kind \<Rightarrow> node_info" where
  "plain_info i k =
     \<lparr>nid = i, kind = k, owningBlock = 0, topo_position = int i, maybeOperator = None,
      attr_index = None, attr_types = None, attr_name = None, attr_beg = None,
      attr_end = None, attr_warn_id = None, attr_Subgraph = None, profile_callback = NoProfile\<rparr>"

definition empty_graph :: Block where
  "empty_graph = Block (Node (plain_info 0 prim_Param) [] [] []) []
                       (Node (plain_info 1 prim_Return) [] [] [])"

definition instr :: "OpCode \<Rightarrow> int \<Rightarrow> nat \<Rightarrow> Instruction" where
  "instr opc x n = \<lparr>op = opc, X = word_of_int x, N = word_of_nat n\<rparr>"

text \<open>Three guards, each followed by its \<^verbatim>\<open>JF\<close>.\<close>

definition three_guards :: CodeImpl where
  "three_guards = (init_CodeImpl (\<lambda>_. False) False empty_graph)
     \<lparr>instructions := [instr GUARD 0 0, instr JF 0 0, instr GUARD 1 0, instr JF 0 0,
                       instr GUARD 2 0, instr JF 0 0, instr RET 0 0]\<rparr>"

definition plain_value :: "nat \<Rightarrow> nat \<Rightarrow> value_info" where
  "plain_value v u = \<lparr>vid = v, vtype = OtherType 0, uses_size = u, toIValue = None\<rparr>"

definition operator_info :: "nat \<Rightarrow> string \<Rightarrow> node_info" where
  "operator_info i name = (plain_info i (other_kind name))
     \<lparr>maybeOperator := Some \<lparr>hasOperation = True, is_vararg = False, schema_name = name,
                               overload_name = [], schema_arguments = [], getOperation = i\<rparr>\<rparr>"

text \<open>\<^verbatim>\<open>z = if (cond) a+b else a-b; return z\<close>, with no node emitted inline.\<close>

definition if_params :: Node where
  "if_params = Node (plain_info 0 prim_Param) []
                 [plain_value 1 1, plain_value 2 2, plain_value 3 2] []"

definition if_true_block :: Block where
  "if_true_block =
     (let add = Node (operator_info 3 ''aten::add'')
                  [Val (plain_value 2 2) if_params, Val (plain_value 3 2) if_params]
                  [plain_value 4 1] []
      in Block (Node (plain_info 2 prim_Param) [] [] []) [add]
               (Node (plain_info 4 prim_Return) [Val (plain_value 4 1) add] [] []))"

definition if_false_block :: Block where
  "if_false_block =
     (let sub = Node (operator_info 6 ''aten::sub'')
                  [Val (plain_value 2 2) if_params, Val (plain_value 3 2) if_params]
                  [plain_value 5 1] []
      in Block (Node (plain_info 5 prim_Param) [] [] []) [sub]
               (Node (plain_info 7 prim_Return) [Val (plain_value 5 1) sub] [] []))"

definition if_node :: Node where
  "if_node = Node (plain_info 1 prim_If) [Val (plain_value 1 1) if_params] [plain_value 6 1]
               [if_true_block, if_false_block]"

definition if_graph :: Block where
  "if_graph = Block if_params [if_node]
                (Node (plain_info 8 prim_Return) [Val (plain_value 6 1) if_node] [] [])"

text \<open>A loop that carries no value: its inputs are the trip count and the initial
  condition, its body calls one operator and returns the condition.\<close>

definition loop_params :: Node where
  "loop_params = Node (plain_info 0 prim_Param) [] [plain_value 1 1, plain_value 2 2] []"

definition loop_body :: Block where
  "loop_body =
     Block (Node (plain_info 2 prim_Param) [] [plain_value 3 0] [])
       [Node (operator_info 3 ''prim::Print'') [] [] []]
       (Node (plain_info 4 prim_Return) [Val (plain_value 2 2) loop_params] [] [])"

definition loop_node :: Node where
  "loop_node = Node (plain_info 1 prim_Loop)
                 [Val (plain_value 1 1) loop_params, Val (plain_value 2 2) loop_params] []
                 [loop_body]"

definition loop_graph :: Block where
  "loop_graph = Block loop_params [loop_node] (Node (plain_info 5 prim_Return) [] [] [])"

text \<open>One guard: a \<^verbatim>\<open>BailOut\<close> node on the graph's only input, whose continuation
  needs no further value.\<close>

definition guard_params :: Node where
  "guard_params = Node (plain_info 0 prim_Param) [] [plain_value 1 1] []"




text \<open>The program of a finished compilation, as triples of opcode, signed \<^verbatim>\<open>X\<close> and
  \<^verbatim>\<open>N\<close>; \<open>None\<close> when the compilation failed.\<close>

definition listing :: "error + CodeImpl \<Rightarrow> (OpCode \<times> int \<times> nat) list option" where
  "listing r = (case r of Inl e \<Rightarrow> None
                | Inr s \<Rightarrow> Some (map (\<lambda>i. (op i, sint (X i), unat (N i))) (instructions s)))"

text \<open>A state in which the graph inputs of \<open>if_graph\<close> sit in registers 1 to 3, as they do
  when \<^verbatim>\<open>emitIf\<close> is reached.\<close>

definition if_state :: CodeImpl where
  "if_state = (init_CodeImpl (\<lambda>_. False) False if_graph)
     \<lparr>register_size := 3, value_to_reg := [1 \<mapsto> 1, 2 \<mapsto> 2, 3 \<mapsto> 3]\<rparr>"

definition loop_state :: CodeImpl where
  "loop_state = (init_CodeImpl (\<lambda>_. False) False loop_graph)
     \<lparr>register_size := 2, value_to_reg := [1 \<mapsto> 1, 2 \<mapsto> 2]\<rparr>"

text \<open>The segments of the program of \<open>if_graph\<close>.\<close>

definition if_true_code :: "(OpCode \<times> int \<times> nat) list" where
  "if_true_code = [(LOAD, 2, 0), (LOAD, 3, 0), (OP, 0, 0), (STORE, 4, 0), (MOVE, 4, 0)]"

definition if_false_code :: "(OpCode \<times> int \<times> nat) list" where
  "if_false_code = [(MOVE, 2, 0), (MOVE, 3, 0), (OP, 1, 0), (STORE, 5, 0), (MOVE, 5, 0)]"

definition loop_body_code :: "(OpCode \<times> int \<times> nat) list" where
  "loop_body_code = [(STORE, 3, 0), (OP, 0, 0), (MOVE, 2, 0)]"









text \<open>The recorded index and the length of every deferred block.\<close>

definition block_table :: "error + CodeImpl \<Rightarrow> (nat \<times> nat) list option" where
  "block_table r = (case r of Inl e \<Rightarrow> None
     | Inr s \<Rightarrow> Some (map (\<lambda>b. (jf_instruction_index b, length (bb_instructions b)))
                        (bailout_blocks s)))"


definition const_value :: "nat \<Rightarrow> int \<Rightarrow> value_info" where
  "const_value v i = \<lparr>vid = v, vtype = OtherType 0, uses_size = 1, toIValue = Some (IInt i)\<rparr>"

definition const_node :: "nat \<Rightarrow> nat \<Rightarrow> int \<Rightarrow> Node" where
  "const_node n v i = Node (plain_info n prim_Constant) [] [const_value v i] []"



text \<open>A constant of function type, as the callee of a \<^verbatim>\<open>prim::CallFunction\<close> is.\<close>

definition fn_const_node :: Node where
  "fn_const_node = Node (plain_info 1 prim_Constant) []
     [\<lparr>vid = 2, vtype = FunctionType (GraphFn 0), uses_size = 1, toIValue = Some (IOther 0)\<rparr>] []"

section \<open>Predicates on programs and states\<close>

text \<open>The jumps: the instructions whose \<^verbatim>\<open>X\<close> is an offset from their own index.\<close>

definition is_jump :: "Instruction \<Rightarrow> bool" where
  "is_jump i = (op i = JF \<or> op i = JMP \<or> op i = LOOP)"

text \<open>
  Jump validity of a finished program: every jump at index \<open>i\<close> targets
  \<open>i + X\<close> (\<open>X\<close> read as a signed 32-bit number), an index of the program.
\<close>

definition valid_jump_targets :: "Instruction list \<Rightarrow> bool" where
  "valid_jump_targets prog =
     list_all (\<lambda>i. is_jump (prog ! i) \<longrightarrow>
                 0 \<le> int i + sint (X (prog ! i)) \<and>
                 int i + sint (X (prog ! i)) < int (length prog))
       [0..<length prog]"

text \<open>
  A stretch of emitted code is well formed when it holds no \<^verbatim>\<open>FAIL_GUARD\<close> and each of
  its jumps encodes, in 32 bits, the distance to a position \<open>t\<close> inside the stretch or
  just after it. A deferred bailout block is well formed code followed by its
  \<^verbatim>\<open>TAIL_CALL\<close>.
\<close>

definition wf_code :: "Instruction list \<Rightarrow> bool" where
  "wf_code code =
     (\<forall>j<length code. op (code ! j) \<noteq> FAIL_GUARD \<and>
        (is_jump (code ! j) \<longrightarrow>
           (\<exists>t\<le>length code. X (code ! j) = word_of_int (int t - int j))))"

definition good_block :: "BailoutBlock \<Rightarrow> bool" where
  "good_block b =
     (\<exists>body tc. bb_instructions b = body @ [tc] \<and> op tc = TAIL_CALL \<and> wf_code body)"

text \<open>While a single bailout block exists, its index is that of a \<^verbatim>\<open>JF\<close> that follows
  a \<^verbatim>\<open>GUARD\<close>.\<close>

definition guard_inv :: "CodeImpl \<Rightarrow> bool" where
  "guard_inv s =
     (\<forall>b. bailout_blocks s = [b] \<longrightarrow>
        1 \<le> jf_instruction_index b \<and> jf_instruction_index b < length (instructions s) \<and>
        op (instructions s ! jf_instruction_index b) = JF \<and>
        op (instructions s ! (jf_instruction_index b - 1)) = GUARD)"

text \<open>What every emitting function does to the state it is given.\<close>

definition code_extends :: "CodeImpl \<Rightarrow> CodeImpl \<Rightarrow> bool" where
  "code_extends s s' = (\<exists>code. instructions s' = instructions s @ code \<and> wf_code code)"

definition state_extends :: "CodeImpl \<Rightarrow> CodeImpl \<Rightarrow> bool" where
  "state_extends s s' =
     ((\<exists>bs. bailout_blocks s' = bailout_blocks s @ bs \<and> list_all good_block bs) \<and>
      register_size s \<le> register_size s' \<and>
      (guard_inv s \<longrightarrow> guard_inv s'))"

definition emit_ok :: "CodeImpl \<Rightarrow> CodeImpl \<Rightarrow> bool" where
  "emit_ok s s' = (code_extends s s' \<and> state_extends s s')"

text \<open>What \<^verbatim>\<open>emitGuard\<close> returns: the index of the \<^verbatim>\<open>JF\<close> it emitted last, right after
  its \<^verbatim>\<open>GUARD\<close>.\<close>

definition guard_shape :: "nat \<Rightarrow> CodeImpl \<Rightarrow> bool" where
  "guard_shape jf s' =
     (jf + 1 = length (instructions s') \<and> 1 \<le> jf \<and>
      op (instructions s' ! jf) = JF \<and> op (instructions s' ! (jf - 1)) = GUARD)"

text \<open>The end of a \<^verbatim>\<open>WithCurrentNode\<close> scope: \<^verbatim>\<open>current_node_\<close> gets back the value it had
  in \<open>s\<close>.\<close>

definition restore_current_node :: "CodeImpl \<Rightarrow> CodeImpl \<Rightarrow> error + CodeImpl" where
  "restore_current_node s t = Inr (t\<lparr>current_node := current_node s\<rparr>)"

text \<open>A whole program in which every jump encodes the distance to one of its own
  indices.\<close>

definition strict_code :: "Instruction list \<Rightarrow> bool" where
  "strict_code prog =
     (\<forall>j<length prog. is_jump (prog ! j) \<longrightarrow>
        (\<exists>t<length prog. X (prog ! j) = word_of_int (int t - int j)))"


section \<open>The table of the mobile pre-pass, in the words of the specification\<close>

text \<open>The call sites that the pre-pass looks at: the nodes with an operator whose
  schema is not vararg.\<close>

definition call_sites :: "Node list \<Rightarrow> Node list" where
  "call_sites ns =
     filter (\<lambda>n. case maybeOperator (info n) of None \<Rightarrow> False
                 | Some op_schema \<Rightarrow> \<not> is_vararg op_schema) ns"

definition site_name :: "Node \<Rightarrow> string" where
  "site_name n = (case maybeOperator (info n) of None \<Rightarrow> []
                  | Some op_schema \<Rightarrow> unique_name op_schema)"

definition site_pair :: "Node \<Rightarrow> string \<times> string" where
  "site_pair n = (case maybeOperator (info n) of None \<Rightarrow> ([], [])
                  | Some op_schema \<Rightarrow> (schema_name op_schema, overload_name op_schema))"

definition site_args :: "(nat list \<Rightarrow> Val list \<Rightarrow> nat) \<Rightarrow> Node \<Rightarrow> nat" where
  "site_args CalculateNecessaryArgs n =
     (case maybeOperator (info n) of None \<Rightarrow> 0
      | Some op_schema \<Rightarrow> CalculateNecessaryArgs (schema_arguments op_schema) (inputs n))"

text \<open>The maximum of the necessary arguments over the call sites with a given unique
  name; no entry for a name without call site.\<close>

definition max_necessary_args ::
    "(nat list \<Rightarrow> Val list \<Rightarrow> nat) \<Rightarrow> Node list \<Rightarrow> string \<Rightarrow> nat option" where
  "max_necessary_args CalculateNecessaryArgs ns name =
     (let counts = map (site_args CalculateNecessaryArgs)
                     (filter (\<lambda>n. site_name n = name) (call_sites ns))
      in if counts = [] then None else Some (Max (set counts)))"

text \<open>Two call sites of different operators with the same unique name: the operator
  named \<open>a.b\<close> without overload name, called with one input, and the overload \<open>b\<close> of
  the operator named \<open>a\<close>, called with two.\<close>

definition schema_info :: "nat \<Rightarrow> string \<Rightarrow> string \<Rightarrow> node_info" where
  "schema_info i name overload = (plain_info i (other_kind name))
     \<lparr>maybeOperator := Some \<lparr>hasOperation = True, is_vararg = False, schema_name = name,
                               overload_name = overload, schema_arguments = [],
                               getOperation = i\<rparr>\<rparr>"

definition clash_graph :: Block where
  "clash_graph =
     (let x = Val (plain_value 1 3) guard_params
      in Block guard_params
           [Node (schema_info 1 ''a.b'' []) [x] [] [],
            Node (schema_info 2 ''a'' ''b'') [x, x] [] []]
           (Node (plain_info 3 prim_Return) [] [] []))"

section \<open>The fields that only the mobile compiler sets\<close>

definition set_mobile :: "bool \<Rightarrow> (string \<Rightarrow> nat option) \<Rightarrow> CodeImpl \<Rightarrow> CodeImpl" where
  "set_mobile b m s = s\<lparr>is_MobileCodeImpl := b, op_to_num_specified_args := m\<rparr>"

text \<open>Two runs with the same outcome, up to these two fields.\<close>

definition same_run ::
    "bool \<Rightarrow> (string \<Rightarrow> nat option) \<Rightarrow> error + CodeImpl \<Rightarrow> error + CodeImpl \<Rightarrow> bool" where
  "same_run b m r' r = (r' = map_sum id (set_mobile b m) r)"

definition same_guard ::
    "bool \<Rightarrow> (string \<Rightarrow> nat option) \<Rightarrow> error + (nat \<times> CodeImpl) \<Rightarrow> error + (nat \<times> CodeImpl) \<Rightarrow> bool" where
  "same_guard b m r' r = (r' = map_sum id (\<lambda>(jf, s). (jf, set_mobile b m s)) r)"

section \<open>Basic facts about the operations\<close>

lemma andThen_Inr_iff: "andThen m f = Inr y \<longleftrightarrow> (\<exists>a. m = Inr a \<and> f a = Inr y)"
  by (cases m) (simp_all add: andThen_def)

lemma andThenE:
  assumes "andThen m f = Inr y"
  obtains a where "m = Inr a" "f a = Inr y"
  using assms by (auto simp: andThen_Inr_iff)

lemma andThen_Inr [simp]: "andThen (Inr a) f = f a"
  by (simp add: andThen_def)

lemma andThen_Inl [simp]: "andThen (Inl e) f = Inl e"
  by (simp add: andThen_def)

lemma safe_narrow_cast_int32_eq [simp]: "safe_narrow_cast_int32 v = word_of_int v"
  by (simp add: safe_narrow_cast_int32_def Let_def)

lemma safe_narrow_cast_uint16_eq [simp]: "safe_narrow_cast_uint16 v = word_of_nat v"
  by (simp add: safe_narrow_cast_uint16_def Let_def)

lemma insertInstruction_Inr:
  assumes "insertInstruction opc x n s = Inr s'"
  shows "s' = s\<lparr>instructions := instructions s @ [\<lparr>op = opc, X = word_of_int x, N = word_of_nat n\<rparr>],
               instructions_source := instructions_source s @ [nid (current_node s)],
               last_inserted_op := (if opc = OP then Some (current_node s) else last_inserted_op s)\<rparr>"
  using assms by (auto simp: insertInstruction_def Let_def split: if_splits option.splits)

lemma wf_code_Nil [simp]: "wf_code []"
  by (simp add: wf_code_def)

lemma wf_code_single:
  "op i \<noteq> FAIL_GUARD \<Longrightarrow> (is_jump i \<Longrightarrow> X i = 0) \<Longrightarrow> wf_code [i]"
  unfolding wf_code_def by (auto intro: exI[of _ 0])

lemma wf_code_append: "wf_code c1 \<Longrightarrow> wf_code c2 \<Longrightarrow> wf_code (c1 @ c2)"
  unfolding wf_code_def
proof (intro allI impI)
  fix j
  assume a: "\<forall>j<length c1. op (c1 ! j) \<noteq> FAIL_GUARD \<and> (is_jump (c1 ! j) \<longrightarrow> (\<exists>t\<le>length c1. X (c1 ! j) = word_of_int (int t - int j)))"
    and b: "\<forall>j<length c2. op (c2 ! j) \<noteq> FAIL_GUARD \<and> (is_jump (c2 ! j) \<longrightarrow> (\<exists>t\<le>length c2. X (c2 ! j) = word_of_int (int t - int j)))"
    and j: "j < length (c1 @ c2)"
  show "op ((c1 @ c2) ! j) \<noteq> FAIL_GUARD \<and>
        (is_jump ((c1 @ c2) ! j) \<longrightarrow> (\<exists>t\<le>length (c1 @ c2). X ((c1 @ c2) ! j) = word_of_int (int t - int j)))"
  proof (cases "j < length c1")
    case True
    then have eq: "(c1 @ c2) ! j = c1 ! j" by (simp add: nth_append)
    from a True have nf: "op (c1 ! j) \<noteq> FAIL_GUARD" by blast
    show ?thesis
    proof (intro conjI impI)
      show "op ((c1 @ c2) ! j) \<noteq> FAIL_GUARD" using nf eq by simp
    next
      assume "is_jump ((c1 @ c2) ! j)"
      then obtain t where t: "t \<le> length c1" "X (c1 ! j) = word_of_int (int t - int j)"
        using a True eq by auto
      then show "\<exists>t\<le>length (c1 @ c2). X ((c1 @ c2) ! j) = word_of_int (int t - int j)"
        using eq by (intro exI[of _ t]) simp
    qed
  next
    case False
    then have j2: "j - length c1 < length c2" using j by simp
    have eq: "(c1 @ c2) ! j = c2 ! (j - length c1)" using False by (simp add: nth_append)
    from b j2 have nf: "op (c2 ! (j - length c1)) \<noteq> FAIL_GUARD" by blast
    show ?thesis
    proof (intro conjI impI)
      show "op ((c1 @ c2) ! j) \<noteq> FAIL_GUARD" using nf eq by simp
    next
      assume "is_jump ((c1 @ c2) ! j)"
      then obtain t where t: "t \<le> length c2" "X (c2 ! (j - length c1)) = word_of_int (int t - int (j - length c1))"
        using b j2 eq by auto
      have "int (length c1 + t) - int j = int t - int (j - length c1)" using False by simp
      then show "\<exists>t\<le>length (c1 @ c2). X ((c1 @ c2) ! j) = word_of_int (int t - int j)"
        using t eq by (intro exI[of _ "length c1 + t"]) simp
    qed
  qed
qed

lemma code_extends_refl [simp]: "code_extends s s"
  by (simp add: code_extends_def)

lemma code_extends_trans: "code_extends s t \<Longrightarrow> code_extends t u \<Longrightarrow> code_extends s u"
  by (auto simp: code_extends_def intro: wf_code_append)

lemma state_extends_refl [simp]: "state_extends s s"
  by (simp add: state_extends_def)

lemma state_extends_trans: "state_extends s t \<Longrightarrow> state_extends t u \<Longrightarrow> state_extends s u"
  by (auto simp: state_extends_def)

lemma emit_ok_refl [simp]: "emit_ok s s"
  by (simp add: emit_ok_def)

lemma emit_ok_trans: "emit_ok s t \<Longrightarrow> emit_ok t u \<Longrightarrow> emit_ok s u"
  by (auto simp: emit_ok_def intro: code_extends_trans state_extends_trans)

text \<open>A step that touches neither the instructions, nor the bailout blocks, nor the
  register counter.\<close>

lemma emit_ok_same:
  "instructions s' = instructions s \<Longrightarrow> bailout_blocks s' = bailout_blocks s \<Longrightarrow>
   register_size s' = register_size s \<Longrightarrow> emit_ok s s'"
  by (simp add: emit_ok_def code_extends_def state_extends_def guard_inv_def)

lemma emit_ok_cong_right:
  "emit_ok s t \<Longrightarrow> instructions t' = instructions t \<Longrightarrow> bailout_blocks t' = bailout_blocks t \<Longrightarrow>
   register_size t' = register_size t \<Longrightarrow> emit_ok s t'"
  by (rule emit_ok_trans[OF _ emit_ok_same])

lemma guard_inv_append:
  "guard_inv s \<Longrightarrow> bailout_blocks s' = bailout_blocks s \<Longrightarrow>
   instructions s' = instructions s @ code \<Longrightarrow> guard_inv s'"
  by (auto simp: guard_inv_def nth_append)

lemma emit_ok_append:
  "instructions s' = instructions s @ code \<Longrightarrow> wf_code code \<Longrightarrow>
   bailout_blocks s' = bailout_blocks s \<Longrightarrow> register_size s \<le> register_size s' \<Longrightarrow>
   emit_ok s s'"
  by (auto simp: emit_ok_def code_extends_def state_extends_def intro: guard_inv_append)

lemma insertInstruction_emit_ok:
  "insertInstruction opc x n s = Inr s' \<Longrightarrow> opc \<noteq> FAIL_GUARD \<Longrightarrow>
   (opc = JF \<or> opc = JMP \<or> opc = LOOP \<Longrightarrow> x = 0) \<Longrightarrow> emit_ok s s'"
  by (drule insertInstruction_Inr, rule emit_ok_append[where code = "[\<lparr>op = opc, X = word_of_int x, N = word_of_nat n\<rparr>]"])
     (auto intro!: wf_code_single simp: is_jump_def)

lemma insertInstruction_emit_ok':
  "insertInstruction opc x n t = Inr s' \<Longrightarrow> opc \<noteq> FAIL_GUARD \<Longrightarrow>
   (opc = JF \<or> opc = JMP \<or> opc = LOOP \<Longrightarrow> x = 0) \<Longrightarrow>
   instructions t = instructions s \<Longrightarrow> bailout_blocks t = bailout_blocks s \<Longrightarrow>
   register_size t = register_size s \<Longrightarrow> emit_ok s s'"
  by (rule emit_ok_trans[OF emit_ok_same insertInstruction_emit_ok])

lemma state_extends_set_X: "set_X i x s = Inr s' \<Longrightarrow> state_extends s s'"
  by (auto simp: set_X_def state_extends_def guard_inv_def nth_list_update split: if_splits)

lemma allocRegs_loop_fields:
  "allocRegs_loop vs s = Inr s' \<Longrightarrow>
   instructions s' = instructions s \<and> bailout_blocks s' = bailout_blocks s \<and>
   register_size s' = register_size s + int (length vs)"
  by (induction vs arbitrary: s) (auto split: if_splits)

lemma allocRegs_emit_ok: "allocRegs vs s = Inr (r, s') \<Longrightarrow> emit_ok s s'"
  by (auto simp: allocRegs_def Let_def andThen_Inr_iff dest!: allocRegs_loop_fields
      intro!: emit_ok_append[where code = "[]"])

lemma emitStoreOutputs_emit_ok: "emitStoreOutputs node s = Inr s' \<Longrightarrow> emit_ok s s'"
  by (auto simp: emitStoreOutputs_def Let_def andThen_Inr_iff split: if_splits
      intro: emit_ok_trans[OF allocRegs_emit_ok insertInstruction_emit_ok])

lemma emitConstant_emit_ok: "emitConstant node s = Inr s' \<Longrightarrow> emit_ok s s'"
  by (auto simp: emitConstant_def insertConstant_def andThen_Inr_iff
      split: if_splits option.splits intro!: emit_ok_same)

lemma emitTypes_fields [simp]:
  "instructions (emitTypes ts s) = instructions s"
  "bailout_blocks (emitTypes ts s) = bailout_blocks s"
  "register_size (emitTypes ts s) = register_size s"
  by (induction ts arbitrary: s) (simp_all add: emitType_def)

lemma emitCreateObject_emit_ok: "emitCreateObject node s = Inr s' \<Longrightarrow> emit_ok s s'"
  by (auto simp: emitCreateObject_def emitType_def andThen_Inr_iff
      elim!: insertInstruction_emit_ok')

lemma emitExit_emit_ok: "emitExit node s = Inr s' \<Longrightarrow> emit_ok s s'"
  by (auto simp: emitExit_def intro: insertInstruction_emit_ok)

lemma wf_code_Cons:
  assumes "wf_code c" and "op i \<noteq> FAIL_GUARD"
    and "is_jump i \<Longrightarrow> \<exists>t\<le>length c + 1. X i = word_of_int (int t)"
  shows "wf_code (i # c)"
  unfolding wf_code_def
proof (intro allI impI)
  fix j assume j: "j < length (i # c)"
  show "op ((i # c) ! j) \<noteq> FAIL_GUARD \<and>
        (is_jump ((i # c) ! j) \<longrightarrow>
           (\<exists>t\<le>length (i # c). X ((i # c) ! j) = word_of_int (int t - int j)))"
  proof (cases j)
    case 0
    then show ?thesis using assms(2,3) by auto
  next
    case (Suc k)
    then have k: "k < length c" using j by simp
    from assms(1) k have nf: "op (c ! k) \<noteq> FAIL_GUARD" by (simp add: wf_code_def)
    show ?thesis
    proof (intro conjI impI)
      show "op ((i # c) ! j) \<noteq> FAIL_GUARD" using nf Suc by simp
    next
      assume "is_jump ((i # c) ! j)"
      then obtain t where t: "t \<le> length c" "X (c ! k) = word_of_int (int t - int k)"
        using assms(1) k Suc by (auto simp: wf_code_def)
      then show "\<exists>t\<le>length (i # c). X ((i # c) ! j) = word_of_int (int t - int j)"
        using Suc by (intro exI[of _ "Suc t"]) simp
    qed
  qed
qed

lemma wf_code_loop:
  assumes "wf_code body" and "op h \<noteq> FAIL_GUARD" and "op l \<noteq> FAIL_GUARD"
    and "X h = word_of_int (int (length body) + 2)"
    and "X l = word_of_int (- int (length body) - 1)"
  shows "wf_code (h # body @ [l])"
  unfolding wf_code_def
proof (intro allI impI)
  fix j assume j: "j < length (h # body @ [l])"
  let ?c = "h # body @ [l]"
  consider (head) "j = 0" | (mid) k where "j = Suc k" "k < length body"
    | (last) "j = Suc (length body)"
    using j by (cases j) (auto simp: less_Suc_eq)
  then show "op (?c ! j) \<noteq> FAIL_GUARD \<and>
        (is_jump (?c ! j) \<longrightarrow> (\<exists>t\<le>length ?c. X (?c ! j) = word_of_int (int t - int j)))"
  proof cases
    case head
    then show ?thesis using assms(2,4)
      by (auto intro!: exI[of _ "length body + 2"])
  next
    case (mid k)
    from assms(1) mid(2) have nf: "op (body ! k) \<noteq> FAIL_GUARD" by (simp add: wf_code_def)
    have eq: "?c ! j = body ! k" using mid by (simp add: nth_append)
    show ?thesis
    proof (intro conjI impI)
      show "op (?c ! j) \<noteq> FAIL_GUARD" using nf eq by simp
    next
      assume "is_jump (?c ! j)"
      then obtain t where t: "t \<le> length body" "X (body ! k) = word_of_int (int t - int k)"
        using assms(1) mid(2) eq by (auto simp: wf_code_def)
      then show "\<exists>t\<le>length ?c. X (?c ! j) = word_of_int (int t - int j)"
        using eq mid(1) by (intro exI[of _ "Suc t"]) simp
    qed
  next
    case last
    then have eq: "?c ! j = l" by (simp add: nth_append)
    show ?thesis using assms(3,5) eq last
      by (auto intro!: exI[of _ 0])
  qed
qed

lemma wf_code_if:
  assumes "wf_code c1" "wf_code c3" "wf_code c6"
    and "op jf = JF" "X jf = word_of_int (int (length c3) + 2)"
    and "op jmp = JMP" "X jmp = word_of_int (int (length c6) + 1)"
  shows "wf_code (c1 @ jf # c3 @ jmp # c6)"
proof -
  have "wf_code (jmp # c6)"
    using assms(3,6,7) by (intro wf_code_Cons) (auto intro!: exI[of _ "length c6 + 1"])
  then have "wf_code (c3 @ jmp # c6)" using assms(2) by (rule wf_code_append[rotated])
  then have "wf_code (jf # c3 @ jmp # c6)"
    using assms(4,5) by (intro wf_code_Cons) (auto intro!: exI[of _ "length c3 + 2"])
  then show ?thesis using assms(1) by (rule wf_code_append[rotated])
qed

lemma state_extends_of_emit_ok: "emit_ok s t \<Longrightarrow> state_extends s t"
  by (simp add: emit_ok_def)

lemma code_extends_of_emit_ok: "emit_ok s t \<Longrightarrow> code_extends s t"
  by (simp add: emit_ok_def)

lemma set_X_Inr:
  "set_X i x s = Inr s' \<Longrightarrow>
   i < length (instructions s) \<and>
   s' = s\<lparr>instructions := (instructions s)[i := (instructions s ! i)\<lparr>X := word_of_int x\<rparr>]\<rparr>"
  by (auto simp: set_X_def split: if_splits)

text \<open>The steps of \<^verbatim>\<open>emitIf\<close> and the program they leave.\<close>

lemma emitIf_steps:
  assumes "emitIf node s = Inr s'"
  obtains s1 s2 b0 s3 s4 s5 b1 s6 where
    "emitLoadInputs (inputs node) s = Inr s1"
    "insertInstruction JF 0 0 s1 = Inr s2"
    "vector_at (blocks node) 0 = Inr b0"
    "emitCodeForBlock b0 s2 = Inr s3"
    "insertInstruction JMP 0 0 s3 = Inr s4"
    "set_X (length (instructions s1))
       (int (length (instructions s4)) - int (length (instructions s1))) s4 = Inr s5"
    "vector_at (blocks node) 1 = Inr b1"
    "emitCodeForBlock b1 s5 = Inr s6"
    "set_X (length (instructions s4) - 1)
       (int (length (instructions s6)) - int (length (instructions s4) - 1)) s6 = Inr s'"
  using assms by (auto simp: emitIf.simps Let_def elim!: andThenE)

lemma emitIf_shape:
  assumes "insertInstruction JF 0 0 s1 = Inr s2"
    and "instructions s3 = instructions s2 @ c3"
    and "insertInstruction JMP 0 0 s3 = Inr s4"
    and "set_X (length (instructions s1))
           (int (length (instructions s4)) - int (length (instructions s1))) s4 = Inr s5"
    and "instructions s6 = instructions s5 @ c6"
    and "set_X (length (instructions s4) - 1)
           (int (length (instructions s6)) - int (length (instructions s4) - 1)) s6 = Inr s'"
  shows "instructions s' = instructions s1 @
           \<lparr>op = JF, X = word_of_int (int (length c3) + 2), N = 0\<rparr> # c3 @
           \<lparr>op = JMP, X = word_of_int (int (length c6) + 1), N = 0\<rparr> # c6"
proof -
  let ?A = "instructions s1"
  have i2: "instructions s2 = ?A @ [\<lparr>op = JF, X = 0, N = 0\<rparr>]"
    using insertInstruction_Inr[OF assms(1)] by simp
  have i4: "instructions s4 = ?A @ \<lparr>op = JF, X = 0, N = 0\<rparr> # c3 @ [\<lparr>op = JMP, X = 0, N = 0\<rparr>]"
    using insertInstruction_Inr[OF assms(3)] assms(2) i2 by simp
  have i5: "instructions s5 = ?A @ \<lparr>op = JF, X = word_of_int (int (length c3) + 2), N = 0\<rparr> # c3 @
               [\<lparr>op = JMP, X = 0, N = 0\<rparr>]"
    using set_X_Inr[OF assms(4)] i4 by (simp add: list_update_append)
  have i6: "instructions s6 = (?A @ \<lparr>op = JF, X = word_of_int (int (length c3) + 2), N = 0\<rparr> # c3) @
               \<lparr>op = JMP, X = 0, N = 0\<rparr> # c6"
    using assms(5) i5 by simp
  have len: "length (instructions s4) - 1 =
      length (?A @ \<lparr>op = JF, X = word_of_int (int (length c3) + 2), N = 0\<rparr> # c3)"
    using i4 by simp
  have "instructions s' = (instructions s6)[length (instructions s4) - 1 :=
          (instructions s6 ! (length (instructions s4) - 1))
            \<lparr>X := word_of_int (int (length (instructions s6)) - int (length (instructions s4) - 1))\<rparr>]"
    using set_X_Inr[OF assms(6)] by simp
  also have "\<dots> = (?A @ \<lparr>op = JF, X = word_of_int (int (length c3) + 2), N = 0\<rparr> # c3) @
               \<lparr>op = JMP, X = word_of_int (int (length c6) + 1), N = 0\<rparr> # c6"
    unfolding len unfolding i6 by (simp only: list_update_length nth_append_length) simp
  finally show ?thesis by simp
qed

text \<open>The steps of \<^verbatim>\<open>emitLoop\<close> and the program they leave.\<close>

lemma emitLoop_steps:
  assumes "emitLoop node s = Inr s'"
  obtains s1 s2 s3 body s4 s5 where
    "insertInstruction LOADC (int (length (constant_table s))) 0
       (s\<lparr>constant_table := constant_table s @ [IInt 0]\<rparr>) = Inr s1"
    "emitLoadInputs (inputs node) s1 = Inr s2"
    "insertInstruction LOOP 0 (length (inputs node)) s2 = Inr s3"
    "vector_at (blocks node) 0 = Inr body"
    "emitCodeForBlock body s3 = Inr s4"
    "insertInstruction JMP (int (length (instructions s2)) - int (length (instructions s4))) 0 s4
       = Inr s5"
    "set_X (length (instructions s2))
       (int (length (instructions s5)) - int (length (instructions s2))) s5 = Inr s'"
  using assms by (auto simp: emitLoop.simps Let_def insertConstant_def elim!: andThenE)

lemma emitLoop_shape:
  assumes "insertInstruction LOOP 0 n s2 = Inr s3"
    and "instructions s4 = instructions s3 @ c4"
    and "insertInstruction JMP (int (length (instructions s2)) - int (length (instructions s4))) 0 s4
           = Inr s5"
    and "set_X (length (instructions s2))
           (int (length (instructions s5)) - int (length (instructions s2))) s5 = Inr s'"
  shows "instructions s' = instructions s2 @
           \<lparr>op = LOOP, X = word_of_int (int (length c4) + 2), N = word_of_nat n\<rparr> # c4 @
           [\<lparr>op = JMP, X = word_of_int (- int (length c4) - 1), N = 0\<rparr>]"
proof -
  let ?A = "instructions s2"
  have i3: "instructions s3 = ?A @ [\<lparr>op = LOOP, X = 0, N = word_of_nat n\<rparr>]"
    using insertInstruction_Inr[OF assms(1)] by simp
  have i4: "instructions s4 = ?A @ \<lparr>op = LOOP, X = 0, N = word_of_nat n\<rparr> # c4"
    using assms(2) i3 by simp
  have d: "int (length ?A) - int (length (instructions s4)) = - int (length c4) - 1"
    using i4 by simp
  have i5: "instructions s5 = ?A @ \<lparr>op = LOOP, X = 0, N = word_of_nat n\<rparr> # c4 @
              [\<lparr>op = JMP, X = word_of_int (- int (length c4) - 1), N = 0\<rparr>]"
    using insertInstruction_Inr[OF assms(3)] i4 unfolding d by simp
  have d5: "int (length (instructions s5)) - int (length ?A) = int (length c4) + 2"
    using i5 by simp
  show ?thesis
    using set_X_Inr[OF assms(4)] unfolding d5 i5 by (simp add: list_update_append)
qed

text \<open>The steps of \<^verbatim>\<open>emitGuard\<close> and of \<^verbatim>\<open>emitBailOut\<close>.\<close>

lemma emitGuard_steps:
  assumes "emitGuard node s = Inr (jf, s')"
  obtains guarded s1 out s2 where
    "slice (inputs node) 1 1 = Inr guarded"
    "emitLoadInputs guarded s = Inr s1"
    "vector_at (outputs node) 0 = Inr out"
    "insertInstruction GUARD (int (length (type_table s1))) 0
       (s1\<lparr>type_table := type_table s1 @ [vtype out]\<rparr>) = Inr s2"
    "insertInstruction JF 0 0 s2 = Inr s'"
    "jf = length (instructions s') - 1"
  using assms by (auto simp: emitGuard.simps Let_def emitType_def elim!: andThenE)

lemma emitGuard_shape:
  assumes "insertInstruction GUARD t 0 s1' = Inr s2" and "insertInstruction JF 0 0 s2 = Inr s'"
  shows "instructions s' = instructions s1' @
           [\<lparr>op = GUARD, X = word_of_int t, N = 0\<rparr>, \<lparr>op = JF, X = 0, N = 0\<rparr>]"
  using insertInstruction_Inr[OF assms(1)] insertInstruction_Inr[OF assms(2)] by simp

lemma emitBailOut_steps:
  assumes "emitBailOut node s = Inr s'"
  obtains jf s1 graph_input unoptimized_graph rest s2 s3 bailout_index where
    "emitGuard node s = Inr (jf, s1)"
    "vector_at (inputs node) 0 = Inr graph_input"
    "get_attr (attr_Subgraph (info (vnode graph_input))) = Inr unoptimized_graph"
    "slice_from (inputs node) 2 = Inr rest"
    "emitLoadInputs rest s1 = Inr s2"
    "insertInstruction TAIL_CALL (int (length (function_table s2))) 0 s2 = Inr s3"
    "kind (info node) = prim_BailOut"
    "get_attr (attr_index (info node)) = Inr bailout_index"
    "0 \<le> bailout_index"
    "createBailoutBlock jf
       (s3\<lparr>function_table := function_table s3 @ [BailoutFn bailout_index unoptimized_graph],
           bailout_functions := bailout_functions s3 @ [BailoutFn bailout_index unoptimized_graph]\<rparr>)
       = Inr s'"
  using assms
  by (auto simp: emitBailOut.simps Let_def elim!: andThenE split: if_splits)

lemma createBailoutBlock_Inr:
  assumes "createBailoutBlock jf s = Inr s'"
  shows "jf + 1 \<le> length (instructions s) \<and>
         s' = s\<lparr>instructions := take (jf + 1) (instructions s),
                 instructions_source := take (length (instructions_source s)
                                              - (length (instructions s) - (jf + 1)))
                                          (instructions_source s),
                 bailout_blocks := bailout_blocks s @
                   [\<lparr>jf_instruction_index = jf,
                     bb_instructions = drop (jf + 1) (instructions s)\<rparr>]\<rparr>"
  using assms
  by (auto simp: createBailoutBlock_def truncateInstructions_def Let_def split: if_splits)

lemma emitBailOut_shape:
  assumes "jf + 1 = length (instructions s1)"
    and "instructions s2 = instructions s1 @ c2"
    and "insertInstruction TAIL_CALL x 0 s2 = Inr s3"
    and "createBailoutBlock jf (s3\<lparr>function_table := ft, bailout_functions := bf\<rparr>) = Inr s'"
  shows "instructions s' = instructions s1"
    and "bailout_blocks s' = bailout_blocks s2 @
           [\<lparr>jf_instruction_index = jf,
             bb_instructions = c2 @ [\<lparr>op = TAIL_CALL, X = word_of_int x, N = 0\<rparr>]\<rparr>]"
    and "register_size s' = register_size s2"
  using insertInstruction_Inr[OF assms(3)] createBailoutBlock_Inr[OF assms(4)] assms(1,2)
  by simp_all

lemma good_block_tail_call:
  "wf_code c \<Longrightarrow> good_block \<lparr>jf_instruction_index = jf,
      bb_instructions = c @ [\<lparr>op = TAIL_CALL, X = x, N = n\<rparr>]\<rparr>"
  by (auto simp: good_block_def)

text \<open>The dispatch of \<^verbatim>\<open>emitNode\<close> and \<^verbatim>\<open>emitNodeAtBlockLevel\<close>, kind by kind. Both set
  \<^verbatim>\<open>current_node_\<close> for the duration of the call.\<close>

lemma emitNode_kind:
  "kind (info node) = prim_Drop \<Longrightarrow> emitNode node s =
     andThen (emitDrop (inputs node) (s\<lparr>current_node := info node\<rparr>)) (restore_current_node s)"
  "kind (info node) = prim_Constant \<Longrightarrow> emitNode node s =
     andThen (emitConstant node (s\<lparr>current_node := info node\<rparr>)) (restore_current_node s)"
  "kind (info node) = prim_If \<Longrightarrow> emitNode node s =
     andThen (emitIf node (s\<lparr>current_node := info node\<rparr>)) (restore_current_node s)"
  "kind (info node) = prim_Loop \<Longrightarrow> emitNode node s =
     andThen (emitLoop node (s\<lparr>current_node := info node\<rparr>)) (restore_current_node s)"
  "kind (info node) = aten_wait \<Longrightarrow> emitNode node s =
     andThen (emitWait node (s\<lparr>current_node := info node\<rparr>)) (restore_current_node s)"
  "kind (info node) = prim_Param \<Longrightarrow> emitNode node s =
     andThen (Inr (s\<lparr>current_node := info node\<rparr>)) (restore_current_node s)"
  "kind (info node) = prim_TypeCheck \<Longrightarrow> emitNode node s =
     andThen (emitTypeCheck node (s\<lparr>current_node := info node\<rparr>)) (restore_current_node s)"
  "kind (info node) = prim_BailOut \<Longrightarrow> emitNode node s =
     andThen (emitBailOut node (s\<lparr>current_node := info node\<rparr>)) (restore_current_node s)"
  "kind (info node) = prim_profile_ivalue \<Longrightarrow> emitNode node s =
     andThen (emitProfile node (s\<lparr>current_node := info node\<rparr>)) (restore_current_node s)"
  "kind (info node) = prim_profile \<Longrightarrow> emitNode node s =
     andThen (emitProfile node (s\<lparr>current_node := info node\<rparr>)) (restore_current_node s)"
  "kind (info node) = prim_GetAttr \<Longrightarrow> emitNode node s =
     andThen (emitGetAttr node (s\<lparr>current_node := info node\<rparr>)) (restore_current_node s)"
  "kind (info node) = prim_SetAttr \<Longrightarrow> emitNode node s =
     andThen (emitSetAttr node (s\<lparr>current_node := info node\<rparr>)) (restore_current_node s)"
  "kind (info node) = prim_ListUnpack \<Longrightarrow> emitNode node s =
     andThen (emitListUnpack node (s\<lparr>current_node := info node\<rparr>)) (restore_current_node s)"
  "kind (info node) = prim_TupleConstruct \<Longrightarrow> emitNode node s =
     andThen (emitTupleConstruct node (s\<lparr>current_node := info node\<rparr>)) (restore_current_node s)"
  "kind (info node) = prim_ListConstruct \<Longrightarrow> emitNode node s =
     andThen (emitContainerConstruct LIST_CONSTRUCT node (s\<lparr>current_node := info node\<rparr>))
       (restore_current_node s)"
  "kind (info node) = prim_DictConstruct \<Longrightarrow> emitNode node s =
     andThen (emitContainerConstruct DICT_CONSTRUCT node (s\<lparr>current_node := info node\<rparr>))
       (restore_current_node s)"
  "kind (info node) = prim_CreateObject \<Longrightarrow> emitNode node s =
     andThen (emitCreateObject node (s\<lparr>current_node := info node\<rparr>)) (restore_current_node s)"
  "kind (info node) = prim_isinstance \<Longrightarrow> emitNode node s =
     andThen (emitIsinstance node (s\<lparr>current_node := info node\<rparr>)) (restore_current_node s)"
  "kind (info node) = prim_TupleSlice \<Longrightarrow> emitNode node s =
     andThen (emitTupleSlice node (s\<lparr>current_node := info node\<rparr>)) (restore_current_node s)"
  "kind (info node) = prim_fork \<Longrightarrow> emitNode node s =
     andThen (emitFork node (s\<lparr>current_node := info node\<rparr>)) (restore_current_node s)"
  "kind (info node) = aten_warn \<Longrightarrow> emitNode node s =
     andThen (emitWarn node (s\<lparr>current_node := info node\<rparr>)) (restore_current_node s)"
  "kind (info node) = prim_Enter \<Longrightarrow> emitNode node s =
     andThen (emitEnter node (s\<lparr>current_node := info node\<rparr>)) (restore_current_node s)"
  "kind (info node) = prim_Exit \<Longrightarrow> emitNode node s =
     andThen (emitExit node (s\<lparr>current_node := info node\<rparr>)) (restore_current_node s)"
  by (simp_all add: emitNode.simps Let_def restore_current_node_def[abs_def])

lemma emitNode_operator:
  "kind (info node) = prim_Return \<or> kind (info node) = other_kind k \<Longrightarrow> emitNode node s =
     andThen (if is_MobileCodeImpl s
              then MobileCodeImpl_emitOperator node (s\<lparr>current_node := info node\<rparr>)
              else CodeImpl_emitOperator node (s\<lparr>current_node := info node\<rparr>))
       (restore_current_node s)"
  by (auto simp: emitNode.simps Let_def restore_current_node_def[abs_def])

lemma emitNode_CallFunction:
  "kind (info node) = prim_CallFunction \<Longrightarrow> emitNode node s =
     andThen
       (andThen (vector_at (inputs node) 0) (\<lambda>callee.
        andThen (if is_FunctionType (vtype (vinfo callee))
                 then Inr (function_of (vtype (vinfo callee))) else Inl BadCast) (\<lambda>func.
        andThen (slice_from (inputs node) 1) (\<lambda>args.
          emitCall func args (s\<lparr>current_node := info node\<rparr>)))))
       (restore_current_node s)"
  by (simp add: emitNode.simps Let_def restore_current_node_def[abs_def])

lemma emitNode_CallMethod:
  "kind (info node) = prim_CallMethod \<Longrightarrow> emitNode node s =
     andThen
       (andThen (vector_at (inputs node) 0) (\<lambda>self.
        andThen (get_attr (attr_name (info node))) (\<lambda>name.
          case vtype (vinfo self) of
            ClassType slots ms \<Rightarrow>
              andThen (getMethod ms name) (\<lambda>func.
                emitCall func (inputs node) (s\<lparr>current_node := info node\<rparr>))
          | _ \<Rightarrow> emitInterfaceCall name (inputs node) (s\<lparr>current_node := info node\<rparr>))))
       (restore_current_node s)"
  by (simp add: emitNode.simps Let_def restore_current_node_def[abs_def])

lemma emitNodeAtBlockLevel_kind:
  "kind (info node) = prim_Constant \<Longrightarrow> emitNodeAtBlockLevel node s =
     andThen (emitConstant node (s\<lparr>current_node := info node\<rparr>)) (restore_current_node s)"
  "kind (info node) = prim_Return \<Longrightarrow> emitNodeAtBlockLevel node s =
     andThen (emitLoadInputs (inputs node) (s\<lparr>current_node := info node\<rparr>))
       (restore_current_node s)"
  "kind (info node) \<noteq> prim_Constant \<Longrightarrow> kind (info node) \<noteq> prim_Return \<Longrightarrow>
   emitNodeAtBlockLevel node s =
     andThen (if \<not> can_emit_inline s (nid (info node))
              then andThen (emitNode node (s\<lparr>current_node := info node\<rparr>))
                     (\<lambda>t. emitStoreOutputs node t)
              else Inr (s\<lparr>current_node := info node\<rparr>))
       (restore_current_node s)"
    apply (simp_all add: emitNodeAtBlockLevel.simps Let_def restore_current_node_def[abs_def])
  apply (cases "kind (info node)"; simp)
  done

lemma emit_ok_update_right [simp]:
  "emit_ok s (instructions_source_update f1 t) = emit_ok s t"
  "emit_ok s (constant_table_update f2 t) = emit_ok s t"
  "emit_ok s (operator_table_update f3 t) = emit_ok s t"
  "emit_ok s (function_table_update f4 t) = emit_ok s t"
  "emit_ok s (forked_functions_update f5 t) = emit_ok s t"
  "emit_ok s (type_table_update f6 t) = emit_ok s t"
  "emit_ok s (profile_function_table_update f7 t) = emit_ok s t"
  "emit_ok s (can_emit_inline_update f8 t) = emit_ok s t"
  "emit_ok s (value_to_reg_update f9 t) = emit_ok s t"
  "emit_ok s (op_to_num_specified_args_update f10 t) = emit_ok s t"
  "emit_ok s (use_count_update f11 t) = emit_ok s t"
  "emit_ok s (current_node_update f12 t) = emit_ok s t"
  "emit_ok s (last_inserted_op_update f13 t) = emit_ok s t"
  "emit_ok s (bailout_functions_update f14 t) = emit_ok s t"
  "emit_ok s (is_MobileCodeImpl_update f15 t) = emit_ok s t"
  "emit_ok s (FLAGS_torch_jit_disable_warning_prints_update f16 t) = emit_ok s t"
  by (simp_all add: emit_ok_def code_extends_def state_extends_def guard_inv_def)

lemma emit_ok_update_left [simp]:
  "emit_ok (instructions_source_update f17 s) t = emit_ok s t"
  "emit_ok (constant_table_update f18 s) t = emit_ok s t"
  "emit_ok (operator_table_update f19 s) t = emit_ok s t"
  "emit_ok (function_table_update f20 s) t = emit_ok s t"
  "emit_ok (forked_functions_update f21 s) t = emit_ok s t"
  "emit_ok (type_table_update f22 s) t = emit_ok s t"
  "emit_ok (profile_function_table_update f23 s) t = emit_ok s t"
  "emit_ok (can_emit_inline_update f24 s) t = emit_ok s t"
  "emit_ok (value_to_reg_update f25 s) t = emit_ok s t"
  "emit_ok (op_to_num_specified_args_update f26 s) t = emit_ok s t"
  "emit_ok (use_count_update f27 s) t = emit_ok s t"
  "emit_ok (current_node_update f28 s) t = emit_ok s t"
  "emit_ok (last_inserted_op_update f29 s) t = emit_ok s t"
  "emit_ok (bailout_functions_update f30 s) t = emit_ok s t"
  "emit_ok (is_MobileCodeImpl_update f31 s) t = emit_ok s t"
  "emit_ok (FLAGS_torch_jit_disable_warning_prints_update f32 s) t = emit_ok s t"
  by (simp_all add: emit_ok_def code_extends_def state_extends_def guard_inv_def)

lemma emit_ok_insertInstruction:
  "insertInstruction opc x n a = Inr s' \<Longrightarrow> emit_ok s a \<Longrightarrow> opc \<noteq> FAIL_GUARD \<Longrightarrow>
   (opc = JF \<or> opc = JMP \<or> opc = LOOP \<Longrightarrow> x = 0) \<Longrightarrow> emit_ok s s'"
  by (rule emit_ok_trans[OF _ insertInstruction_emit_ok])

lemma emit_ok_emitTypes [simp]: "emit_ok s (emitTypes ts t) = emit_ok s t"
  by (simp add: emit_ok_def code_extends_def state_extends_def guard_inv_def)


lemma restore_current_node_emit_ok [simp]:
  "restore_current_node s t = Inr s' \<Longrightarrow> emit_ok u t \<Longrightarrow> emit_ok u s'"
  by (auto simp: restore_current_node_def)

section \<open>Every emitting function extends the program\<close>

lemma emit_ok_all:
  shows "\<forall>s'. emitUse input do_drop s = Inr s' \<longrightarrow> emit_ok s s'"
    and "\<forall>s'. emitLoadInputs vs s = Inr s' \<longrightarrow> emit_ok s s'"
    and "\<forall>s'. emitDrop vs s = Inr s' \<longrightarrow> emit_ok s s'"
    and "\<forall>s'. CodeImpl_emitOperator node s = Inr s' \<longrightarrow> emit_ok s s'"
    and "\<forall>s'. MobileCodeImpl_emitOperator node s = Inr s' \<longrightarrow> emit_ok s s'"
    and "\<forall>s'. emitWait node s = Inr s' \<longrightarrow> emit_ok s s'"
    and "\<forall>s'. emitIf node s = Inr s' \<longrightarrow> emit_ok s s'"
    and "\<forall>s'. emitLoop node s = Inr s' \<longrightarrow> emit_ok s s'"
    and "\<forall>s'. emitCall func vs s = Inr s' \<longrightarrow> emit_ok s s'"
    and "\<forall>s'. emitNodeAtBlockLevel node s = Inr s' \<longrightarrow> emit_ok s s'"
    and "\<forall>s'. emitTypeCheck node s = Inr s' \<longrightarrow> emit_ok s s'"
    and "\<forall>jf s'. emitGuard node s = Inr (jf, s') \<longrightarrow> emit_ok s s' \<and> guard_shape jf s'"
    and "\<forall>s'. emitBailOut node s = Inr s' \<longrightarrow> emit_ok s s'"
    and "\<forall>s'. emitProfile node s = Inr s' \<longrightarrow> emit_ok s s'"
    and "\<forall>s'. emitGetAttr node s = Inr s' \<longrightarrow> emit_ok s s'"
    and "\<forall>s'. emitSetAttr node s = Inr s' \<longrightarrow> emit_ok s s'"
    and "\<forall>s'. emitInterfaceCall name vs s = Inr s' \<longrightarrow> emit_ok s s'"
    and "\<forall>s'. emitListUnpack node s = Inr s' \<longrightarrow> emit_ok s s'"
    and "\<forall>s'. emitTupleConstruct node s = Inr s' \<longrightarrow> emit_ok s s'"
    and "\<forall>s'. opc = NAMED_TUPLE_CONSTRUCT \<or> opc = LIST_CONSTRUCT \<or> opc = DICT_CONSTRUCT \<longrightarrow>
            emitContainerConstruct opc node s = Inr s' \<longrightarrow> emit_ok s s'"
    and "\<forall>s'. emitIsinstance node s = Inr s' \<longrightarrow> emit_ok s s'"
    and "\<forall>s'. emitTupleSlice node s = Inr s' \<longrightarrow> emit_ok s s'"
    and "\<forall>s'. emitFork node s = Inr s' \<longrightarrow> emit_ok s s'"
    and "\<forall>s'. emitWarn node s = Inr s' \<longrightarrow> emit_ok s s'"
    and "\<forall>s'. emitEnter node s = Inr s' \<longrightarrow> emit_ok s s'"
    and "\<forall>s'. emitNode node s = Inr s' \<longrightarrow> emit_ok s s'"
    and "\<forall>s'. emitCodeForBlock b s = Inr s' \<longrightarrow> emit_ok s s'"
    and "\<forall>s'. emitNodes ns s = Inr s' \<longrightarrow> emit_ok s s'"
proof (induct input do_drop s and vs s and vs s and node s and node s and node s and node s and node s and func vs s and node s and node s and node s and node s and node s and node s and node s and name vs s and node s and node s and opc node s and node s and node s and node s and node s and node s and node s and b s and ns s
    rule: emitUse_emitLoadInputs_emitDrop_CodeImpl_emitOperator_MobileCodeImpl_emitOperator_emitWait_emitIf_emitLoop_emitCall_emitNodeAtBlockLevel_emitTypeCheck_emitGuard_emitBailOut_emitProfile_emitGetAttr_emitSetAttr_emitInterfaceCall_emitListUnpack_emitTupleConstruct_emitContainerConstruct_emitIsinstance_emitTupleSlice_emitFork_emitWarn_emitEnter_emitNode_emitCodeForBlock_emitNodes.induct)
  case (1 input do_drop s)
  then show ?case
    by (auto simp: emitUse.simps Let_def registerFor_def
        split: if_splits option.splits elim!: andThenE emit_ok_insertInstruction)
next
  case (2 s)
  then show ?case by (simp add: emitLoadInputs.simps)
next
  case (3 input rest s)
  then show ?case
    by (auto simp: emitLoadInputs.simps elim!: andThenE intro: emit_ok_trans)
next
  case (4 s)
  then show ?case by (simp add: emitDrop.simps)
next
  case (5 input rest s)
  then show ?case
    by (auto simp: emitDrop.simps elim!: andThenE intro: emit_ok_trans)
next
  case (6 node s)
  then show ?case
    by (auto simp: CodeImpl_emitOperator.simps
        split: option.splits if_splits elim!: andThenE emit_ok_insertInstruction)
next
  case (7 node s)
  then show ?case by (simp add: MobileCodeImpl_emitOperator.simps)
next
  case (8 node s)
  then show ?case
    by (auto simp: emitWait.simps elim!: andThenE emit_ok_insertInstruction)
next
  case (9 node s)
  show ?case
  proof (intro allI impI)
    fix s' assume "emitIf node s = Inr s'"
    then obtain s1 s2 b0 s3 s4 s5 b1 s6 where st:
      "emitLoadInputs (inputs node) s = Inr s1"
      "insertInstruction JF 0 0 s1 = Inr s2"
      "vector_at (blocks node) 0 = Inr b0"
      "emitCodeForBlock b0 s2 = Inr s3"
      "insertInstruction JMP 0 0 s3 = Inr s4"
      "set_X (length (instructions s1))
         (int (length (instructions s4)) - int (length (instructions s1))) s4 = Inr s5"
      "vector_at (blocks node) 1 = Inr b1"
      "emitCodeForBlock b1 s5 = Inr s6"
      "set_X (length (instructions s4) - 1)
         (int (length (instructions s6)) - int (length (instructions s4) - 1)) s6 = Inr s'"
      by (rule emitIf_steps)
    have ok1: "emit_ok s s1" using 9(1) st(1) by simp
    have ok3: "emit_ok s2 s3" using 9(2)[OF st(1) refl st(2) st(3)] st(4) by simp
    have ok6: "emit_ok s5 s6"
      using 9(3)[OF st(1) refl st(2) st(3) st(4) st(5) refl st(6) st(7)] st(8) by simp
    from ok1 obtain c1 where c1: "instructions s1 = instructions s @ c1" "wf_code c1"
      by (auto simp: emit_ok_def code_extends_def)
    from ok3 obtain c3 where c3: "instructions s3 = instructions s2 @ c3" "wf_code c3"
      by (auto simp: emit_ok_def code_extends_def)
    from ok6 obtain c6 where c6: "instructions s6 = instructions s5 @ c6" "wf_code c6"
      by (auto simp: emit_ok_def code_extends_def)
    have "instructions s' = instructions s @ (c1 @
           \<lparr>op = JF, X = word_of_int (int (length c3) + 2), N = 0\<rparr> # c3 @
           \<lparr>op = JMP, X = word_of_int (int (length c6) + 1), N = 0\<rparr> # c6)"
      using emitIf_shape[OF st(2) c3(1) st(5) st(6) c6(1) st(9)] c1(1) by simp
    moreover have "wf_code (c1 @
           \<lparr>op = JF, X = word_of_int (int (length c3) + 2), N = 0\<rparr> # c3 @
           \<lparr>op = JMP, X = word_of_int (int (length c6) + 1), N = 0\<rparr> # c6)"
      using c1(2) c3(2) c6(2) by (intro wf_code_if) simp_all
    ultimately have "code_extends s s'" unfolding code_extends_def by blast
    moreover have "state_extends s s'"
      using state_extends_of_emit_ok[OF ok1]
        state_extends_of_emit_ok[OF insertInstruction_emit_ok[OF st(2)]]
        state_extends_of_emit_ok[OF ok3]
        state_extends_of_emit_ok[OF insertInstruction_emit_ok[OF st(5)]]
        state_extends_set_X[OF st(6)] state_extends_of_emit_ok[OF ok6]
        state_extends_set_X[OF st(9)]
      by (blast intro: state_extends_trans)
    ultimately show "emit_ok s s'" by (simp add: emit_ok_def)
  qed
next
  case (10 node s)
  show ?case
  proof (intro allI impI)
    fix s' assume "emitLoop node s = Inr s'"
    then obtain s1 s2 s3 body s4 s5 where st:
      "insertInstruction LOADC (int (length (constant_table s))) 0
         (s\<lparr>constant_table := constant_table s @ [IInt 0]\<rparr>) = Inr s1"
      "emitLoadInputs (inputs node) s1 = Inr s2"
      "insertInstruction LOOP 0 (length (inputs node)) s2 = Inr s3"
      "vector_at (blocks node) 0 = Inr body"
      "emitCodeForBlock body s3 = Inr s4"
      "insertInstruction JMP (int (length (instructions s2)) - int (length (instructions s4))) 0 s4
         = Inr s5"
      "set_X (length (instructions s2))
         (int (length (instructions s5)) - int (length (instructions s2))) s5 = Inr s'"
      by (rule emitLoop_steps)
    have pair: "(int (length (constant_table s)), s\<lparr>constant_table := constant_table s @ [IInt 0]\<rparr>)
                = insertConstant (IInt 0) s"
      by (simp add: insertConstant_def)
    have ok1: "emit_ok s s1"
      using st(1) by (auto elim!: insertInstruction_emit_ok')
    have ok2: "emit_ok s1 s2" using 10(1)[OF refl pair st(1)] st(2) by simp
    have ok4: "emit_ok s3 s4"
      using 10(2)[OF refl pair st(1) st(2) refl st(3) st(4)] st(5) by simp
    from ok1 ok2 have "emit_ok s s2" by (rule emit_ok_trans)
    then obtain c2 where c2: "instructions s2 = instructions s @ c2" "wf_code c2"
      by (auto simp: emit_ok_def code_extends_def)
    from ok4 obtain c4 where c4: "instructions s4 = instructions s3 @ c4" "wf_code c4"
      by (auto simp: emit_ok_def code_extends_def)
    let ?L = "\<lparr>op = LOOP, X = word_of_int (int (length c4) + 2), N = word_of_nat (length (inputs node))\<rparr>
                # c4 @ [\<lparr>op = JMP, X = word_of_int (- int (length c4) - 1), N = 0\<rparr>]"
    have "instructions s' = instructions s @ (c2 @ ?L)"
      using emitLoop_shape[OF st(3) c4(1) st(6) st(7)] c2(1) by simp
    moreover have "wf_code ?L" using c4(2) by (intro wf_code_loop) simp_all
    then have "wf_code (c2 @ ?L)" using c2(2) by (intro wf_code_append)
    ultimately have "code_extends s s'" unfolding code_extends_def by blast
    moreover have se5: "state_extends s4 s5"
      using insertInstruction_Inr[OF st(6)]
      by (auto simp: state_extends_def guard_inv_def nth_append)
    have "state_extends s s'"
      using state_extends_of_emit_ok[OF ok1] state_extends_of_emit_ok[OF ok2]
        state_extends_of_emit_ok[OF insertInstruction_emit_ok[OF st(3)]]
        state_extends_of_emit_ok[OF ok4] se5 state_extends_set_X[OF st(7)]
      by (blast intro: state_extends_trans)
    ultimately show "emit_ok s s'" by (simp add: emit_ok_def)
  qed
next
  case (11 func vs s)
  then show ?case
    by (auto simp: emitCall.simps elim!: andThenE emit_ok_insertInstruction)
next
  case (12 node s)
  let ?s = "s\<lparr>current_node := info node\<rparr>"
  show ?case
  proof (intro allI impI)
    fix s' assume e: "emitNodeAtBlockLevel node s = Inr s'"
    consider (const) "kind (info node) = prim_Constant" | (ret) "kind (info node) = prim_Return"
      | (other) "kind (info node) \<noteq> prim_Constant" "kind (info node) \<noteq> prim_Return"
      by blast
    then show "emit_ok s s'"
    proof cases
      case const
      then show ?thesis using e
        by (auto simp: emitNodeAtBlockLevel_kind elim!: andThenE dest!: emitConstant_emit_ok)
    next
      case ret
      then show ?thesis using e 12(1)[OF refl refl ret]
        by (auto simp: emitNodeAtBlockLevel_kind elim!: andThenE)
    next
      case other
      show ?thesis
      proof (cases "can_emit_inline s (nid (info node))")
        case True
        then show ?thesis using e other
          by (auto simp: emitNodeAtBlockLevel_kind elim!: andThenE)
      next
        case False
        then have ni: "\<not> can_emit_inline ?s (nid (info node))" by simp
        have ih: "\<forall>s'. emitNode node ?s = Inr s' \<longrightarrow> emit_ok ?s s'"
          using other 12(2-)[OF refl refl _ ni] by (cases "kind (info node)") simp_all
        show ?thesis using e other False ih
          by (auto simp: emitNodeAtBlockLevel_kind elim!: andThenE
              dest!: emitStoreOutputs_emit_ok intro: emit_ok_trans)
      qed
    qed
  qed
next
  case (13 node s)
  then show ?case
    by (auto simp: emitTypeCheck.simps Let_def get_attr_def
        split: option.splits if_splits elim!: andThenE emit_ok_insertInstruction)
next
  case (14 node s)
  show ?case
  proof (intro allI impI)
    fix jf s' assume "emitGuard node s = Inr (jf, s')"
    then obtain guarded s1 out s2 where st:
      "slice (inputs node) 1 1 = Inr guarded"
      "emitLoadInputs guarded s = Inr s1"
      "vector_at (outputs node) 0 = Inr out"
      "insertInstruction GUARD (int (length (type_table s1))) 0
         (s1\<lparr>type_table := type_table s1 @ [vtype out]\<rparr>) = Inr s2"
      "insertInstruction JF 0 0 s2 = Inr s'"
      "jf = length (instructions s') - 1"
      by (rule emitGuard_steps)
    have ok1: "emit_ok s s1" using 14[OF st(1)] st(2) by simp
    have ok2: "emit_ok s1 s2" using st(4) by (auto elim!: insertInstruction_emit_ok')
    have ok3: "emit_ok s2 s'" using st(5) by (auto elim!: insertInstruction_emit_ok)
    have "guard_shape jf s'"
      using emitGuard_shape[OF st(4) st(5)] st(6) by (simp add: guard_shape_def nth_append)
    then show "emit_ok s s' \<and> guard_shape jf s'"
      using ok1 ok2 ok3 by (blast intro: emit_ok_trans)
  qed
next
  case (15 node s)
  show ?case
  proof (intro allI impI)
    fix s' assume "emitBailOut node s = Inr s'"
    then obtain jf s1 graph_input unoptimized_graph rest s2 s3 bailout_index where st:
      "emitGuard node s = Inr (jf, s1)"
      "vector_at (inputs node) 0 = Inr graph_input"
      "get_attr (attr_Subgraph (info (vnode graph_input))) = Inr unoptimized_graph"
      "slice_from (inputs node) 2 = Inr rest"
      "emitLoadInputs rest s1 = Inr s2"
      "insertInstruction TAIL_CALL (int (length (function_table s2))) 0 s2 = Inr s3"
      "kind (info node) = prim_BailOut"
      "get_attr (attr_index (info node)) = Inr bailout_index"
      "0 \<le> bailout_index"
      "createBailoutBlock jf
         (s3\<lparr>function_table := function_table s3 @ [BailoutFn bailout_index unoptimized_graph],
             bailout_functions := bailout_functions s3 @ [BailoutFn bailout_index unoptimized_graph]\<rparr>)
         = Inr s'"
      by (rule emitBailOut_steps)
    have g: "emit_ok s s1" "guard_shape jf s1" using 15(1) st(1) by simp_all
    have ok2: "emit_ok s1 s2" using 15(2)[OF st(1) refl st(2) st(3) st(4)] st(5) by simp
    from ok2 obtain c2 where c2: "instructions s2 = instructions s1 @ c2" "wf_code c2"
      by (auto simp: emit_ok_def code_extends_def)
    have jf: "jf + 1 = length (instructions s1)" using g(2) by (simp add: guard_shape_def)
    note sh = emitBailOut_shape[OF jf c2(1) st(6) st(10)]
    have ce: "code_extends s s'"
      using code_extends_of_emit_ok[OF g(1)] sh(1) by (simp add: code_extends_def)
    from g(1) ok2 have ok: "emit_ok s s2" by (rule emit_ok_trans)
    then obtain bs where bs: "bailout_blocks s2 = bailout_blocks s @ bs" "list_all good_block bs"
      by (auto simp: emit_ok_def state_extends_def)
    let ?b = "\<lparr>jf_instruction_index = jf,
               bb_instructions = c2 @ [\<lparr>op = TAIL_CALL,
                  X = word_of_int (int (length (function_table s2))), N = 0\<rparr>]\<rparr>"
    have blocks: "bailout_blocks s' = bailout_blocks s @ (bs @ [?b])" using sh(2) bs(1) by simp
    have good: "list_all good_block (bs @ [?b])"
      using bs(2) good_block_tail_call[OF c2(2)] by simp
    have reg: "register_size s \<le> register_size s'"
      using ok sh(3) by (simp add: emit_ok_def state_extends_def)
    have "guard_inv s'"
      unfolding guard_inv_def
    proof (intro allI impI)
      fix b assume "bailout_blocks s' = [b]"
      then have "b = ?b" using blocks by (simp add: append_eq_Cons_conv)
      then show "1 \<le> jf_instruction_index b \<and> jf_instruction_index b < length (instructions s') \<and>
        op (instructions s' ! jf_instruction_index b) = JF \<and>
        op (instructions s' ! (jf_instruction_index b - 1)) = GUARD"
        using g(2) sh(1) by (simp add: guard_shape_def)
    qed
    then have "state_extends s s'"
      unfolding state_extends_def using blocks good reg by blast
    then show "emit_ok s s'" using ce by (simp add: emit_ok_def)
  qed
next
  case (16 node s)
  then show ?case
    by (auto simp: emitProfile.simps
        split: profile_cast.splits elim!: andThenE emit_ok_insertInstruction)
next
  case (17 node s)
  then show ?case
    by (auto simp: emitGetAttr.simps elim!: andThenE emit_ok_insertInstruction)
next
  case (18 node s)
  then show ?case
    by (auto simp: emitSetAttr.simps elim!: andThenE emit_ok_insertInstruction)
next
  case (19 name vs s)
  then show ?case
    by (auto simp: emitInterfaceCall.simps insertConstant_def
        elim!: andThenE emit_ok_insertInstruction)
next
  case (20 node s)
  then show ?case
    by (auto simp: emitListUnpack.simps elim!: andThenE emit_ok_insertInstruction)
next
  case (21 node s)
  then show ?case
    by (auto simp: emitTupleConstruct.simps
        split: jit_type.splits if_splits elim!: andThenE emit_ok_insertInstruction)
next
  case (22 opc node s)
  then show ?case
    by (auto simp: emitContainerConstruct.simps Let_def emitType_def
        elim!: andThenE emit_ok_insertInstruction)
next
  case (23 node s)
  then show ?case
    by (auto simp: emitIsinstance.simps Let_def
        elim!: andThenE emit_ok_insertInstruction)
next
  case (24 node s)
  then show ?case
    by (auto simp: emitTupleSlice.simps elim!: andThenE emit_ok_insertInstruction)
next
  case (25 node s)
  then show ?case
    by (auto simp: emitFork.simps Let_def elim!: andThenE emit_ok_insertInstruction)
next
  case (26 node s)
  then show ?case
    by (auto simp: emitWarn.simps Let_def elim!: andThenE emit_ok_insertInstruction)
next
  case (27 node s)
  then show ?case
    by (auto simp: emitEnter.simps elim!: andThenE emit_ok_insertInstruction)
next
  case (28 node s)
  note ih = 28[OF refl refl]
  let ?s = "s\<lparr>current_node := info node\<rparr>"
  show ?case
  proof (intro allI impI)
    fix s' assume e: "emitNode node s = Inr s'"
    show "emit_ok s s'"
    proof (cases "kind (info node)")
      case prim_Constant
      then show ?thesis using e
        by (auto simp: emitNode_kind elim!: andThenE dest!: emitConstant_emit_ok)
    next
      case prim_Return
      then show ?thesis using e ih(1,2)
        by (auto simp: emitNode_operator elim!: andThenE split: if_splits)
    next
      case (other_kind k)
      then show ?thesis using e ih(27,28)
        by (auto simp: emitNode_operator elim!: andThenE split: if_splits)
    next
      case prim_Param
      then show ?thesis using e by (auto simp: emitNode_kind elim!: andThenE)
    next
      case prim_CreateObject
      then show ?thesis using e
        by (auto simp: emitNode_kind elim!: andThenE dest!: emitCreateObject_emit_ok)
    next
      case prim_Exit
      then show ?thesis using e
        by (auto simp: emitNode_kind elim!: andThenE dest!: emitExit_emit_ok)
    next
      case prim_CallFunction
      then show ?thesis using e ih(7)
        by (auto simp: emitNode_CallFunction elim!: andThenE split: if_splits)
    next
      case prim_CallMethod
      then show ?thesis using e ih(8-11)
        by (auto simp: emitNode_CallMethod elim!: andThenE split: jit_type.splits)
    next
      case prim_Drop
      then show ?thesis using e ih(3) by (auto simp: emitNode_kind elim!: andThenE)
    next
      case prim_If
      then show ?thesis using e ih(4) by (auto simp: emitNode_kind elim!: andThenE)
    next
      case prim_Loop
      then show ?thesis using e ih(5) by (auto simp: emitNode_kind elim!: andThenE)
    next
      case aten_wait
      then show ?thesis using e ih(6) by (auto simp: emitNode_kind elim!: andThenE)
    next
      case prim_TypeCheck
      then show ?thesis using e ih(12) by (auto simp: emitNode_kind elim!: andThenE)
    next
      case prim_BailOut
      then show ?thesis using e ih(13) by (auto simp: emitNode_kind elim!: andThenE)
    next
      case prim_profile_ivalue
      then show ?thesis using e ih(14) by (auto simp: emitNode_kind elim!: andThenE)
    next
      case prim_profile
      then show ?thesis using e ih(15) by (auto simp: emitNode_kind elim!: andThenE)
    next
      case prim_GetAttr
      then show ?thesis using e ih(16) by (auto simp: emitNode_kind elim!: andThenE)
    next
      case prim_SetAttr
      then show ?thesis using e ih(17) by (auto simp: emitNode_kind elim!: andThenE)
    next
      case prim_ListUnpack
      then show ?thesis using e ih(18) by (auto simp: emitNode_kind elim!: andThenE)
    next
      case prim_TupleConstruct
      then show ?thesis using e ih(19) by (auto simp: emitNode_kind elim!: andThenE)
    next
      case prim_ListConstruct
      then show ?thesis using e ih(20) by (auto simp: emitNode_kind elim!: andThenE)
    next
      case prim_DictConstruct
      then show ?thesis using e ih(21) by (auto simp: emitNode_kind elim!: andThenE)
    next
      case prim_isinstance
      then show ?thesis using e ih(22) by (auto simp: emitNode_kind elim!: andThenE)
    next
      case prim_TupleSlice
      then show ?thesis using e ih(23) by (auto simp: emitNode_kind elim!: andThenE)
    next
      case prim_fork
      then show ?thesis using e ih(24) by (auto simp: emitNode_kind elim!: andThenE)
    next
      case aten_warn
      then show ?thesis using e ih(25) by (auto simp: emitNode_kind elim!: andThenE)
    next
      case prim_Enter
      then show ?thesis using e ih(26) by (auto simp: emitNode_kind elim!: andThenE)
    qed
  qed
next
  case (29 param ns ret s)
  show ?case
  proof (intro allI impI)
    fix s' assume "emitCodeForBlock (Block param ns ret) s = Inr s'"
    then obtain s1 s2 where st: "emitNodeAtBlockLevel param s = Inr s1"
      "emitNodes ns s1 = Inr s2" "emitNodeAtBlockLevel ret s2 = Inr s'"
      by (auto simp: emitCodeForBlock.simps elim!: andThenE)
    have "emit_ok s s1" using 29(1) st(1) by simp
    moreover have "emit_ok s1 s2" using 29(2)[OF st(1)] st(2) by simp
    moreover have "emit_ok s2 s'" using 29(3)[OF st(1) st(2)] st(3) by simp
    ultimately show "emit_ok s s'" by (blast intro: emit_ok_trans)
  qed
next
  case (30 s)
  then show ?case by (simp add: emitNodes.simps)
next
  case (31 node rest s)
  then show ?case
    by (auto simp: emitNodes.simps elim!: andThenE intro: emit_ok_trans)
qed

section \<open>The finished program\<close>

lemma sint_word_of_int_32:
  "- (2 ^ 31) \<le> x \<Longrightarrow> x < 2 ^ 31 \<Longrightarrow> sint (word_of_int x :: 32 word) = x"
  by (simp add: sint_sbintrunc' signed_take_bit_int_eq_self)

lemma strict_code_valid:
  assumes "strict_code prog" and "length prog < 2 ^ 31"
  shows "valid_jump_targets prog"
  unfolding valid_jump_targets_def list_all_iff
proof (intro ballI impI)
  fix i assume "i \<in> set [0..<length prog]" and j: "is_jump (prog ! i)"
  then have i: "i < length prog" by simp
  from assms(1) i j obtain t where t: "t < length prog"
    "X (prog ! i) = word_of_int (int t - int i)"
    by (auto simp: strict_code_def)
  have b: "int (length prog) < 2 ^ 31" using assms(2) by (simp add: of_nat_less_iff[of _ "2 ^ 31", simplified])
  have "sint (X (prog ! i)) = int t - int i"
    unfolding t(2) using t(1) i b by (intro sint_word_of_int_32) linarith+
  then show "0 \<le> int i + sint (X (prog ! i)) \<and> int i + sint (X (prog ! i)) < int (length prog)"
    using t(1) by simp
qed

lemma wf_code_strict:
  assumes "wf_code c" and "\<not> is_jump i"
  shows "strict_code (c @ [i])"
  unfolding strict_code_def
proof (intro allI impI)
  fix j assume j: "j < length (c @ [i])" and jmp: "is_jump ((c @ [i]) ! j)"
  have "j < length c" using j jmp assms(2) by (cases "j = length c") (auto simp: nth_append)
  then obtain t where "t \<le> length c" "X (c ! j) = word_of_int (int t - int j)"
    using assms(1) jmp by (auto simp: wf_code_def nth_append)
  then show "\<exists>t<length (c @ [i]). X ((c @ [i]) ! j) = word_of_int (int t - int j)"
    using \<open>j < length c\<close> by (intro exI[of _ t]) (simp add: nth_append)
qed

lemma strict_code_patch_append:
  assumes "strict_code P" and "jf < length P" and "wf_code body" and "op tc = TAIL_CALL"
  shows "strict_code (P[jf := (P ! jf)\<lparr>X := word_of_int (int (length P) - int jf)\<rparr>] @ body @ [tc])"
  unfolding strict_code_def
proof (intro allI impI)
  let ?P' = "P[jf := (P ! jf)\<lparr>X := word_of_int (int (length P) - int jf)\<rparr>]"
  let ?new = "?P' @ body @ [tc]"
  fix j assume j: "j < length ?new" and jmp: "is_jump (?new ! j)"
  consider (patched) "j = jf" | (main) "j < length P" "j \<noteq> jf"
    | (body) k where "j = length P + k" "k < length body" | (last) "j = length P + length body"
    using j by (cases "j < length P") (auto simp: less_Suc_eq intro: that(3)[of "j - length P"])
  then show "\<exists>t<length ?new. X (?new ! j) = word_of_int (int t - int j)"
  proof cases
    case patched
    then show ?thesis using assms(2) by (intro exI[of _ "length P"]) (simp add: nth_append)
  next
    case main
    then have eq: "?new ! j = P ! j" by (simp add: nth_append)
    with assms(1) main(1) jmp obtain t where "t < length P" "X (P ! j) = word_of_int (int t - int j)"
      by (auto simp: strict_code_def)
    then show ?thesis using eq by (intro exI[of _ t]) simp
  next
    case (body k)
    then have eq: "?new ! j = body ! k" by (simp add: nth_append)
    with assms(3) body(2) jmp obtain t where t: "t \<le> length body"
      "X (body ! k) = word_of_int (int t - int k)"
      by (auto simp: wf_code_def)
    have d: "int (length P + t) - int j = int t - int k" using body(1) by simp
    show ?thesis
    proof (intro exI[of _ "length P + t"] conjI)
      show "length P + t < length ?new" using t(1) by simp
      show "X (?new ! j) = word_of_int (int (length P + t) - int j)"
        unfolding eq t(2) d by (rule refl)
    qed
  next
    case last
    then have "?new ! j = tc" by (simp add: nth_append)
    then show ?thesis using jmp assms(4) by (simp add: is_jump_def)
  qed
qed

lemma insertBailoutBlocks_loop_Cons:
  assumes "insertBailoutBlocks_loop (b # rest) s = Inr s'"
  shows "jf_instruction_index b < length (instructions s) \<and>
         op (instructions s ! jf_instruction_index b) = JF \<and>
         jf_instruction_index b < length (instructions_source s) \<and>
         insertBailoutBlocks_loop rest
           (s\<lparr>instructions := (instructions s)[jf_instruction_index b :=
                  (instructions s ! jf_instruction_index b)
                    \<lparr>X := word_of_int (int (length (instructions s)) - int (jf_instruction_index b))\<rparr>]
                  @ bb_instructions b,
               instructions_source := instructions_source s @
                  replicate (length (bb_instructions b))
                    (instructions_source s ! jf_instruction_index b)\<rparr>) = Inr s'"
  using assms
  by (auto simp: Let_def set_X_def split: if_splits elim!: andThenE)


lemma insertBailoutBlocks_loop_strict:
  "insertBailoutBlocks_loop bs s = Inr s' \<Longrightarrow> strict_code (instructions s) \<Longrightarrow>
   list_all good_block bs \<Longrightarrow> strict_code (instructions s')"
proof (induction bs arbitrary: s)
  case Nil
  then show ?case by simp
next
  case (Cons b rest)
  note st = insertBailoutBlocks_loop_Cons[OF Cons.prems(1)]
  from Cons.prems(3) obtain body tc where b: "bb_instructions b = body @ [tc]"
    "op tc = TAIL_CALL" "wf_code body"
    by (auto simp: good_block_def)
  show ?case
  proof (rule Cons.IH[OF conjunct2[OF conjunct2[OF conjunct2[OF st]]]])
    show "list_all good_block rest" using Cons.prems(3) by simp
  next
    show "strict_code (instructions
       (s\<lparr>instructions := (instructions s)[jf_instruction_index b :=
                  (instructions s ! jf_instruction_index b)
                    \<lparr>X := word_of_int (int (length (instructions s)) - int (jf_instruction_index b))\<rparr>]
                  @ bb_instructions b,
               instructions_source := instructions_source s @
                  replicate (length (bb_instructions b))
                    (instructions_source s ! jf_instruction_index b)\<rparr>))"
      using strict_code_patch_append[OF Cons.prems(2) conjunct1[OF st] b(3) b(2)] b(1) by simp
  qed
qed

text \<open>Both constructors run the emitter on an empty program and finish it the same way.\<close>

lemma compiled_steps:
  assumes "new_CodeImpl inline_table warn_flag graph True = Inr t \<or>
           new_MobileCodeImpl CalculateNecessaryArgs inline_table warn_flag graph = Inr t"
  obtains s0 s1 s2 where "instructions s0 = []" "bailout_blocks s0 = []" "register_size s0 = 0"
    "emitCodeForBlock graph s0 = Inr s1" "insertInstruction RET 0 0 s1 = Inr s2"
    "insertBailoutBlocks s2 = Inr t"
proof -
  have pf: "instructions (process_ops_loop c ns s) = instructions s \<and>
            bailout_blocks (process_ops_loop c ns s) = bailout_blocks s \<and>
            register_size (process_ops_loop c ns s) = register_size s" for c ns s
    by (induction ns arbitrary: s) (auto simp: Let_def split: option.splits)
  from assms show ?thesis
  proof
    assume "new_CodeImpl inline_table warn_flag graph True = Inr t"
    then show ?thesis
      by (auto simp: new_CodeImpl_def CodeImpl_run_def Let_def init_CodeImpl_def
          elim!: andThenE intro!: that)
  next
    assume "new_MobileCodeImpl CalculateNecessaryArgs inline_table warn_flag graph = Inr t"
    then show ?thesis
      by (auto simp: new_MobileCodeImpl_def new_CodeImpl_def MobileCodeImpl_run_def Let_def
          init_CodeImpl_def process_ops_for_mobile_def pf
          elim!: andThenE intro!: that)
  qed
qed

lemma compiled_strict:
  assumes "instructions s0 = []" "bailout_blocks s0 = []"
    "emitCodeForBlock graph s0 = Inr s1" "insertInstruction RET 0 0 s1 = Inr s2"
    "insertBailoutBlocks s2 = Inr t"
  shows "strict_code (instructions t)"
proof -
  have ok: "emit_ok s0 s1" using emit_ok_all(27) assms(3) by blast
  then obtain c where c: "instructions s1 = c" "wf_code c"
    using assms(1) by (auto simp: emit_ok_def code_extends_def)
  from ok have bs: "list_all good_block (bailout_blocks s1)"
    using assms(2) by (auto simp: emit_ok_def state_extends_def)
  note r = insertInstruction_Inr[OF assms(4)]
  have "strict_code (instructions s2)"
    using wf_code_strict[OF c(2), of "\<lparr>op = RET, X = word_of_int 0, N = word_of_nat 0\<rparr>"] r c(1)
    by (simp add: is_jump_def)
  moreover have "list_all good_block (bailout_blocks s2)" using bs r by simp
  ultimately show ?thesis
    using assms(5) by (auto simp: insertBailoutBlocks_def intro: insertBailoutBlocks_loop_strict)
qed

text \<open>
  Claim C1. When a compilation (either constructor: \<^verbatim>\<open>run\<close> emits the root block, the
  final \<^verbatim>\<open>RET\<close> and the bailout blocks) returns a program, every \<^verbatim>\<open>JF\<close>, \<^verbatim>\<open>JMP\<close> and
  \<^verbatim>\<open>LOOP\<close> in it, at index \<open>i\<close> with operand \<open>X\<close>, has \<open>0 \<le> i + X < \<close> the length of the
  program. \<^verbatim>\<open>X\<close> is a 32-bit field, so the statement is for programs of fewer than
  \<open>2^31\<close> instructions.
\<close>

theorem compiled_jump_targets_valid:
  assumes "new_CodeImpl inline_table warn_flag graph True = Inr t \<or>
           new_MobileCodeImpl CalculateNecessaryArgs inline_table warn_flag graph = Inr t"
    and "length (instructions t) < 2 ^ 31"
  shows "valid_jump_targets (instructions t)"
proof -
  from assms(1) obtain s0 s1 s2 where "instructions s0 = []" "bailout_blocks s0 = []"
    "register_size s0 = 0"
    "emitCodeForBlock graph s0 = Inr s1" "insertInstruction RET 0 0 s1 = Inr s2"
    "insertBailoutBlocks s2 = Inr t"
    by (rule compiled_steps)
  then have "strict_code (instructions t)" by (intro compiled_strict)
  then show ?thesis using assms(2) by (rule strict_code_valid)
qed

text \<open>The three example graphs compile to these programs.\<close>

lemma if_listing: "listing (new_CodeImpl (\<lambda>_. False) False if_graph True) = Some
  [(STOREN, 1, 3), (MOVE, 1, 0), (JF, 7, 0), (LOAD, 2, 0), (LOAD, 3, 0),
   (OP, 0, 0), (STORE, 4, 0), (MOVE, 4, 0), (JMP, 6, 0), (MOVE, 2, 0),
   (MOVE, 3, 0), (OP, 1, 0), (STORE, 5, 0), (MOVE, 5, 0), (STORE, 6, 0),
   (MOVE, 6, 0), (RET, 0, 0)]"
  by code_simp

lemma loop_listing: "listing (new_CodeImpl (\<lambda>_. False) False loop_graph True) = Some
  [(STOREN, 1, 2), (LOADC, 0, 0), (MOVE, 1, 0), (LOAD, 2, 0), (LOOP, 5, 2),
   (STORE, 3, 0), (OP, 0, 0), (MOVE, 2, 0), (JMP, - 4, 0), (RET, 0, 0)]"
  by code_simp


lemma listing_Some:
  assumes "listing r = Some l"
  obtains s where "r = Inr s" "map (\<lambda>i. (op i, sint (X i), unat (N i))) (instructions s) = l"
  using assms by (cases r) (simp_all add: listing_def)

theorem compiled_jump_targets_valid_witness:
  "\<exists>t. new_CodeImpl (\<lambda>_. False) False if_graph True = Inr t \<and>
       length (instructions t) < 2 ^ 31 \<and> valid_jump_targets (instructions t)"
proof -
  obtain t where t: "new_CodeImpl (\<lambda>_. False) False if_graph True = Inr t"
    and "length (instructions t) = 17"
    using if_listing by (rule listing_Some) (auto dest: arg_cong[where f = length])
  then have len: "length (instructions t) < 2 ^ 31" by simp
  from compiled_jump_targets_valid[OF disjI1[OF t] len] t len show ?thesis by blast
qed

section \<open>Appending the bailout blocks\<close>
















lemma block_table_Some:
  assumes "block_table r = Some l"
  obtains s where "r = Inr s"
    "map (\<lambda>b. (jf_instruction_index b, length (bb_instructions b))) (bailout_blocks s) = l"
  using assms by (cases r) (simp_all add: block_table_def)



section \<open>The code of an If node\<close>

text \<open>
  Claim C4, as the code has it. \<^verbatim>\<open>emitIf\<close> emits the loads of the node's inputs, a \<^verbatim>\<open>JF\<close>
  with offset 0, the true block, a \<^verbatim>\<open>JMP\<close> with offset 0 and the false block, and
  patches both offsets: the \<^verbatim>\<open>JF\<close> gets the length of the true branch plus 2 (itself and
  the \<^verbatim>\<open>JMP\<close>; it targets the first instruction of the false branch), the \<^verbatim>\<open>JMP\<close> the
  length of the false branch plus 1 (it targets the instruction after the false
  branch). Offsets are stored in 32 bits.
\<close>

theorem emitIf_program:
  assumes "emitIf node s = Inr s'"
  shows "\<exists>s1 s2 true_block s3 s4 s5 false_block s6 loads true_code false_code.
           emitLoadInputs (inputs node) s = Inr s1 \<and>
           instructions s1 = instructions s @ loads \<and>
           insertInstruction JF 0 0 s1 = Inr s2 \<and>
           vector_at (blocks node) 0 = Inr true_block \<and>
           emitCodeForBlock true_block s2 = Inr s3 \<and>
           instructions s3 = instructions s2 @ true_code \<and>
           insertInstruction JMP 0 0 s3 = Inr s4 \<and>
           set_X (length (instructions s1))
             (int (length (instructions s4)) - int (length (instructions s1))) s4 = Inr s5 \<and>
           vector_at (blocks node) 1 = Inr false_block \<and>
           emitCodeForBlock false_block s5 = Inr s6 \<and>
           instructions s6 = instructions s5 @ false_code \<and>
           instructions s' = instructions s @ loads @
             [\<lparr>op = JF, X = word_of_int (int (length true_code) + 2), N = 0\<rparr>] @ true_code @
             [\<lparr>op = JMP, X = word_of_int (int (length false_code) + 1), N = 0\<rparr>] @ false_code"
proof -
  from assms obtain s1 s2 b0 s3 s4 s5 b1 s6 where st:
    "emitLoadInputs (inputs node) s = Inr s1"
    "insertInstruction JF 0 0 s1 = Inr s2"
    "vector_at (blocks node) 0 = Inr b0"
    "emitCodeForBlock b0 s2 = Inr s3"
    "insertInstruction JMP 0 0 s3 = Inr s4"
    "set_X (length (instructions s1))
       (int (length (instructions s4)) - int (length (instructions s1))) s4 = Inr s5"
    "vector_at (blocks node) 1 = Inr b1"
    "emitCodeForBlock b1 s5 = Inr s6"
    "set_X (length (instructions s4) - 1)
       (int (length (instructions s6)) - int (length (instructions s4) - 1)) s6 = Inr s'"
    by (rule emitIf_steps)
  obtain c1 where c1: "instructions s1 = instructions s @ c1"
    using emit_ok_all(2) st(1) by (fastforce simp: emit_ok_def code_extends_def)
  obtain c3 where c3: "instructions s3 = instructions s2 @ c3"
    using emit_ok_all(27) st(4) by (fastforce simp: emit_ok_def code_extends_def)
  obtain c6 where c6: "instructions s6 = instructions s5 @ c6"
    using emit_ok_all(27) st(8) by (fastforce simp: emit_ok_def code_extends_def)
  have "instructions s' = instructions s @ c1 @
          [\<lparr>op = JF, X = word_of_int (int (length c3) + 2), N = 0\<rparr>] @ c3 @
          [\<lparr>op = JMP, X = word_of_int (int (length c6) + 1), N = 0\<rparr>] @ c6"
    using emitIf_shape[OF st(2) c3 st(5) st(6) c6 st(9)] c1 by simp
  with st c1 c3 c6 show ?thesis by blast
qed

lemma if_state_listing:
  "listing (emitIf if_node if_state) =
     Some ([(MOVE, 1, 0), (JF, 7, 0)] @ if_true_code @ [(JMP, 6, 0)] @ if_false_code)"
  by code_simp

theorem emitIf_program_witness:
  "\<exists>s' s1 s2 true_block s3 s4 s5 false_block s6 loads true_code false_code.
     emitIf if_node if_state = Inr s' \<and>
     emitLoadInputs (inputs if_node) if_state = Inr s1 \<and>
     instructions s1 = instructions if_state @ loads \<and>
     insertInstruction JF 0 0 s1 = Inr s2 \<and>
     vector_at (blocks if_node) 0 = Inr true_block \<and>
     emitCodeForBlock true_block s2 = Inr s3 \<and>
     instructions s3 = instructions s2 @ true_code \<and>
     insertInstruction JMP 0 0 s3 = Inr s4 \<and>
     set_X (length (instructions s1))
       (int (length (instructions s4)) - int (length (instructions s1))) s4 = Inr s5 \<and>
     vector_at (blocks if_node) 1 = Inr false_block \<and>
     emitCodeForBlock false_block s5 = Inr s6 \<and>
     instructions s6 = instructions s5 @ false_code \<and>
     instructions s' = instructions if_state @ loads @
       [\<lparr>op = JF, X = word_of_int (int (length true_code) + 2), N = 0\<rparr>] @ true_code @
       [\<lparr>op = JMP, X = word_of_int (int (length false_code) + 1), N = 0\<rparr>] @ false_code"
proof -
  obtain s' where s': "emitIf if_node if_state = Inr s'"
    using if_state_listing by (rule listing_Some)
  from emitIf_program[OF s'] s' show ?thesis by blast
qed

lemma if_inlined_listing:
  "listing (new_CodeImpl (\<lambda>n. n = 1 \<or> n = 3 \<or> n = 6) False if_graph True) =
     Some [(STOREN, 1, 3), (MOVE, 1, 0), (JF, 5, 0), (LOAD, 2, 0), (LOAD, 3, 0), (OP, 0, 0),
           (JMP, 4, 0), (MOVE, 2, 0), (MOVE, 3, 0), (OP, 1, 0), (RET, 0, 0)]"
  by code_simp

text \<open>
  The scenario \<^verbatim>\<open>z = if (cond) a+b else a-b; return z\<close>. With no node emitted inline,
  the true branch has 5 instructions and the \<^verbatim>\<open>JF\<close> has offset 7, not 6. With the
  \<^verbatim>\<open>If\<close>, the addition and the subtraction emitted inline (nodes 1, 3 and 6), so that the
  \<^verbatim>\<open>RET\<close> follows the false branch, the true branch has 3 instructions and the \<^verbatim>\<open>JF\<close>
  has offset 5, not 4.
\<close>

theorem emitIf_offset_counterexample:
  "listing (new_CodeImpl (\<lambda>_. False) False if_graph True) =
     Some ([(STOREN, 1, 3), (MOVE, 1, 0)] @ [(JF, 7, 0)] @ if_true_code @ [(JMP, 6, 0)] @
           if_false_code @ [(STORE, 6, 0), (MOVE, 6, 0), (RET, 0, 0)]) \<and>
   (7 :: int) \<noteq> int (length if_true_code) + 1 \<and>
   listing (new_CodeImpl (\<lambda>n. n = 1 \<or> n = 3 \<or> n = 6) False if_graph True) =
     Some ([(STOREN, 1, 3), (MOVE, 1, 0)] @ [(JF, 5, 0)] @
           [(LOAD, 2, 0), (LOAD, 3, 0), (OP, 0, 0)] @ [(JMP, 4, 0)] @
           [(MOVE, 2, 0), (MOVE, 3, 0), (OP, 1, 0)] @ [(RET, 0, 0)]) \<and>
   (5 :: int) \<noteq> int (length [(LOAD, 2 :: int, 0 :: nat), (LOAD, 3, 0), (OP, 0, 0)]) + 1"
  using if_listing if_inlined_listing by (simp add: if_true_code_def if_false_code_def)

section \<open>The code of a Loop node\<close>

text \<open>
  Claim C5, as the code has it. \<^verbatim>\<open>emitLoop\<close> emits a \<^verbatim>\<open>LOADC\<close> of a fresh constant 0, the
  loads of the node's inputs, a \<^verbatim>\<open>LOOP\<close> whose \<^verbatim>\<open>N\<close> is the number of inputs of the node
  (the trip count and the condition are among them), the body once, and a \<^verbatim>\<open>JMP\<close>
  back to the \<^verbatim>\<open>LOOP\<close> (offset minus the length of the body minus 1). The patched
  \<^verbatim>\<open>X\<close> of the \<^verbatim>\<open>LOOP\<close> is the length of the body plus 2: it targets the instruction after
  the \<^verbatim>\<open>JMP\<close>.
\<close>

theorem emitLoop_program:
  assumes "emitLoop node s = Inr s'"
  shows "\<exists>s1 s2 s3 body s4 loads body_code.
           insertInstruction LOADC (int (length (constant_table s))) 0
             (s\<lparr>constant_table := constant_table s @ [IInt 0]\<rparr>) = Inr s1 \<and>
           emitLoadInputs (inputs node) s1 = Inr s2 \<and>
           instructions s2 = instructions s1 @ loads \<and>
           insertInstruction LOOP 0 (length (inputs node)) s2 = Inr s3 \<and>
           vector_at (blocks node) 0 = Inr body \<and>
           emitCodeForBlock body s3 = Inr s4 \<and>
           instructions s4 = instructions s3 @ body_code \<and>
           instructions s' = instructions s @
             [\<lparr>op = LOADC, X = word_of_nat (length (constant_table s)), N = 0\<rparr>] @ loads @
             [\<lparr>op = LOOP, X = word_of_int (int (length body_code) + 2),
               N = word_of_nat (length (inputs node))\<rparr>] @ body_code @
             [\<lparr>op = JMP, X = word_of_int (- int (length body_code) - 1), N = 0\<rparr>]"
proof -
  from assms obtain s1 s2 s3 body s4 s5 where st:
    "insertInstruction LOADC (int (length (constant_table s))) 0
       (s\<lparr>constant_table := constant_table s @ [IInt 0]\<rparr>) = Inr s1"
    "emitLoadInputs (inputs node) s1 = Inr s2"
    "insertInstruction LOOP 0 (length (inputs node)) s2 = Inr s3"
    "vector_at (blocks node) 0 = Inr body"
    "emitCodeForBlock body s3 = Inr s4"
    "insertInstruction JMP (int (length (instructions s2)) - int (length (instructions s4))) 0 s4
       = Inr s5"
    "set_X (length (instructions s2))
       (int (length (instructions s5)) - int (length (instructions s2))) s5 = Inr s'"
    by (rule emitLoop_steps)
  have i1: "instructions s1 = instructions s @
              [\<lparr>op = LOADC, X = word_of_nat (length (constant_table s)), N = 0\<rparr>]"
    using insertInstruction_Inr[OF st(1)] by simp
  obtain c2 where c2: "instructions s2 = instructions s1 @ c2"
    using emit_ok_all(2) st(2) by (fastforce simp: emit_ok_def code_extends_def)
  obtain c4 where c4: "instructions s4 = instructions s3 @ c4"
    using emit_ok_all(27) st(5) by (fastforce simp: emit_ok_def code_extends_def)
  have "instructions s' = instructions s @
          [\<lparr>op = LOADC, X = word_of_nat (length (constant_table s)), N = 0\<rparr>] @ c2 @
          [\<lparr>op = LOOP, X = word_of_int (int (length c4) + 2),
            N = word_of_nat (length (inputs node))\<rparr>] @ c4 @
          [\<lparr>op = JMP, X = word_of_int (- int (length c4) - 1), N = 0\<rparr>]"
    using emitLoop_shape[OF st(3) c4 st(6) st(7)] c2 i1 by simp
  with st c2 c4 show ?thesis by blast
qed

lemma loop_state_listing:
  "listing (emitLoop loop_node loop_state) =
     Some ([(LOADC, 0, 0), (MOVE, 1, 0), (LOAD, 2, 0), (LOOP, 5, 2)] @ loop_body_code @
           [(JMP, - 4, 0)])"
  by code_simp

theorem emitLoop_program_witness:
  "\<exists>s' s1 s2 s3 body s4 loads body_code.
     emitLoop loop_node loop_state = Inr s' \<and>
     insertInstruction LOADC (int (length (constant_table loop_state))) 0
       (loop_state\<lparr>constant_table := constant_table loop_state @ [IInt 0]\<rparr>) = Inr s1 \<and>
     emitLoadInputs (inputs loop_node) s1 = Inr s2 \<and>
     instructions s2 = instructions s1 @ loads \<and>
     insertInstruction LOOP 0 (length (inputs loop_node)) s2 = Inr s3 \<and>
     vector_at (blocks loop_node) 0 = Inr body \<and>
     emitCodeForBlock body s3 = Inr s4 \<and>
     instructions s4 = instructions s3 @ body_code \<and>
     instructions s' = instructions loop_state @
       [\<lparr>op = LOADC, X = word_of_nat (length (constant_table loop_state)), N = 0\<rparr>] @ loads @
       [\<lparr>op = LOOP, X = word_of_int (int (length body_code) + 2),
         N = word_of_nat (length (inputs loop_node))\<rparr>] @ body_code @
       [\<lparr>op = JMP, X = word_of_int (- int (length body_code) - 1), N = 0\<rparr>]"
proof -
  obtain s' where s': "emitLoop loop_node loop_state = Inr s'"
    using loop_state_listing by (rule listing_Some)
  from emitLoop_program[OF s'] s' show ?thesis by blast
qed

text \<open>
  A loop that carries no value: the body has 3 instructions, and the \<^verbatim>\<open>LOOP\<close>
  instruction has \<^verbatim>\<open>X = 5\<close> and \<^verbatim>\<open>N = 2\<close>, not \<^verbatim>\<open>X = 4\<close> and \<^verbatim>\<open>N = 0\<close>.
\<close>

theorem emitLoop_operands_counterexample:
  "listing (new_CodeImpl (\<lambda>_. False) False loop_graph True) =
     Some ([(STOREN, 1, 2), (LOADC, 0, 0), (MOVE, 1, 0), (LOAD, 2, 0)] @ [(LOOP, 5, 2)] @
           loop_body_code @ [(JMP, - 4, 0), (RET, 0, 0)]) \<and>
   (5 :: int) \<noteq> int (length loop_body_code) + 1 \<and> (2 :: nat) \<noteq> 0"
  using loop_listing by (simp add: loop_body_code_def)

section \<open>Loads and moves\<close>

lemma insertInstruction_not_OP:
  "opc \<noteq> OP \<Longrightarrow> insertInstruction opc x n s =
     Inr (s\<lparr>instructions := instructions s @
               [\<lparr>op = opc, X = safe_narrow_cast_int32 x, N = safe_narrow_cast_uint16 n\<rparr>],
             instructions_source := instructions_source s @ [nid (current_node s)]\<rparr>)"
  by (simp add: insertInstruction_def Let_def)

text \<open>
  Claim C6. A use, with \<^verbatim>\<open>drop = false\<close>, of a value that is not inlined, not defined
  by a \<^verbatim>\<open>prim::Constant\<close> and held in register \<open>reg\<close>, increments the value's use counter
  and appends exactly one instruction on \<open>reg\<close>: a \<^verbatim>\<open>MOVE\<close> if the incremented counter
  equals the static number of uses of the value, a \<^verbatim>\<open>LOAD\<close> otherwise. Nothing else of
  the state decides between the two.
\<close>

theorem emitUse_load_or_move:
  assumes "\<not> can_emit_inline s (nid (info (vnode input)))"
    and "kind (info (vnode input)) \<noteq> prim_Constant"
    and "value_to_reg s (vid (vinfo input)) = Some reg"
  shows "emitUse input False s =
           Inr (s\<lparr>use_count := (use_count s)
                      (vid (vinfo input) := use_count s (vid (vinfo input)) + 1),
                   instructions := instructions s @
                      [\<lparr>op = (if use_count s (vid (vinfo input)) + 1 = uses_size (vinfo input)
                               then MOVE else LOAD),
                        X = word_of_int reg, N = 0\<rparr>],
                   instructions_source := instructions_source s @ [nid (current_node s)]\<rparr>)"
  using assms
  by (auto simp: emitUse.simps registerFor_def Let_def insertInstruction_not_OP)

theorem emitUse_load_or_move_witness:
  "emitUse (Val (plain_value 2 2) if_params) False if_state =
     Inr (if_state\<lparr>use_count := (use_count if_state)(2 := 1),
                    instructions := [\<lparr>op = LOAD, X = 2, N = 0\<rparr>],
                    instructions_source := [nid (current_node if_state)]\<rparr>) \<and>
   emitUse (Val (plain_value 2 2) if_params) False
       (if_state\<lparr>use_count := (use_count if_state)(2 := 1)\<rparr>) =
     Inr (if_state\<lparr>use_count := (use_count if_state)(2 := 2),
                    instructions := [\<lparr>op = MOVE, X = 2, N = 0\<rparr>],
                    instructions_source := [nid (current_node if_state)]\<rparr>)"
proof -
  let ?v = "Val (plain_value 2 2) if_params"
  let ?t = "if_state\<lparr>use_count := (use_count if_state)(2 := 1)\<rparr>"
  have v: "vid (vinfo ?v) = 2" "uses_size (vinfo ?v) = 2"
    "kind (info (vnode ?v)) \<noteq> prim_Constant"
    by (simp_all add: plain_value_def if_params_def plain_info_def)
  have s: "\<not> can_emit_inline if_state (nid (info (vnode ?v)))"
    "value_to_reg if_state (vid (vinfo ?v)) = Some 2"
    "use_count if_state 2 = 0" "instructions if_state = []" "instructions_source if_state = []"
    by (simp_all add: if_state_def init_CodeImpl_def plain_value_def)
  have t: "\<not> can_emit_inline ?t (nid (info (vnode ?v)))"
    "value_to_reg ?t (vid (vinfo ?v)) = Some 2"
    using s by simp_all
  from emitUse_load_or_move[OF s(1) v(3) s(2)] emitUse_load_or_move[OF t(1) v(3) t(2)]
  show ?thesis by (simp add: plain_value_def s(3-5) numeral_2_eq_2[symmetric])
qed

section \<open>Register allocation\<close>






section \<open>Constants\<close>

lemma emitConstant_Inr:
  assumes "emitConstant node s = Inr s'"
  shows "\<exists>out. outputs node = [out] \<and>
     (if is_FunctionType (vtype out) then s' = s
      else \<exists>v. toIValue out = Some v \<and>
               s' = s\<lparr>constant_table := constant_table s @ [v],
                      value_to_reg := (value_to_reg s)(vid out \<mapsto> int (length (constant_table s)))\<rparr>)"
  using assms
  by (auto simp: emitConstant_def node_output_def insertConstant_def Let_def
      elim!: andThenE split: list.splits option.splits if_splits)

text \<open>
  Claim C8, as the code has it. Lowering a \<^verbatim>\<open>prim::Constant\<close> node, at block level or
  inline, appends no instruction. If the type of its output is a function type, it
  changes nothing at all: no constant is inserted and the output is bound to nothing.
  Otherwise the value of the constant is appended to the constant table and the
  output is bound to the index of that slot.
\<close>

theorem emitConstant_binds_slot:
  assumes "kind (info node) = prim_Constant"
    and "emitNodeAtBlockLevel node s = Inr s' \<or> emitNode node s = Inr s'"
  shows "\<exists>out. outputs node = [out] \<and> instructions s' = instructions s \<and>
     (if is_FunctionType (vtype out) then s' = s
      else \<exists>v. toIValue out = Some v \<and>
               s' = s\<lparr>constant_table := constant_table s @ [v],
                      value_to_reg := (value_to_reg s)(vid out \<mapsto> int (length (constant_table s)))\<rparr>)"
proof -
  from assms obtain t where t: "emitConstant node (s\<lparr>current_node := info node\<rparr>) = Inr t"
    and s': "s' = t\<lparr>current_node := current_node s\<rparr>"
    by (auto simp: emitNodeAtBlockLevel_kind(1) emitNode_kind(2) restore_current_node_def
        elim!: andThenE)
  let ?s = "s\<lparr>current_node := info node\<rparr>"
  from emitConstant_Inr[OF t] obtain out where out: "outputs node = [out]"
    and c: "if is_FunctionType (vtype out) then t = ?s
      else \<exists>v. toIValue out = Some v \<and>
               t = ?s\<lparr>constant_table := constant_table ?s @ [v],
                      value_to_reg := (value_to_reg ?s)(vid out \<mapsto> int (length (constant_table ?s)))\<rparr>"
    by blast
  show ?thesis
  proof (cases "is_FunctionType (vtype out)")
    case True
    with c have "t = ?s" by simp
    with s' have "s' = s" by simp
    with out True show ?thesis by simp
  next
    case False
    with c obtain v where v: "toIValue out = Some v"
      and tv: "t = ?s\<lparr>constant_table := constant_table ?s @ [v],
                     value_to_reg := (value_to_reg ?s)(vid out \<mapsto> int (length (constant_table ?s)))\<rparr>"
      by auto
    from s' tv have e: "s' = s\<lparr>constant_table := constant_table s @ [v],
        value_to_reg := (value_to_reg s)(vid out \<mapsto> int (length (constant_table s)))\<rparr>"
      by simp
    then have "instructions s' = instructions s" by simp
    with e out False v show ?thesis by simp
  qed
qed

theorem emitConstant_binds_slot_witness:
  "emitNodeAtBlockLevel (const_node 1 9 10) if_state =
     Inr (if_state\<lparr>constant_table := [IInt 10],
                    value_to_reg := (value_to_reg if_state)(9 \<mapsto> 0)\<rparr>) \<and>
   (\<exists>s' out. emitNodeAtBlockLevel (const_node 1 9 10) if_state = Inr s' \<and>
      outputs (const_node 1 9 10) = [out] \<and> instructions s' = instructions if_state \<and>
      (if is_FunctionType (vtype out) then s' = if_state
       else \<exists>v. toIValue out = Some v \<and>
                s' = if_state\<lparr>constant_table := constant_table if_state @ [v],
                       value_to_reg := (value_to_reg if_state)
                         (vid out \<mapsto> int (length (constant_table if_state)))\<rparr>))"
proof -
  have k: "kind (info (const_node 1 9 10)) = prim_Constant"
    by (simp add: const_node_def plain_info_def)
  have a: "emitNodeAtBlockLevel (const_node 1 9 10) if_state =
     Inr (if_state\<lparr>constant_table := [IInt 10],
                    value_to_reg := (value_to_reg if_state)(9 \<mapsto> 0)\<rparr>)"
    unfolding emitNodeAtBlockLevel_kind(1)[OF k]
    by (simp add: emitConstant_def node_output_def
        const_node_def const_value_def is_FunctionType_def insertConstant_def
        restore_current_node_def if_state_def init_CodeImpl_def)
  from emitConstant_binds_slot[OF k disjI1, OF a] a show ?thesis by simp
qed

text \<open>
  A constant of function type: lowering it inserts nothing into the constant table
  and leaves its output (value 2) unbound.
\<close>

theorem emitConstant_function_counterexample:
  "map_sum id (\<lambda>s. (instructions s, constant_table s, value_to_reg s 2))
     (emitNodeAtBlockLevel fn_const_node (init_CodeImpl (\<lambda>_. False) False empty_graph)) =
   Inr ([], [], None)"
  by code_simp

section \<open>Properties of request_bailout\<close>

declare request_bailout_loop.simps [simp del]

lemma request_bailout_loop_length [simp]:
  "length (request_bailout_loop i c ins) = length ins"
proof (induction i c ins rule: request_bailout_loop.induct)
  case (1 i c ins)
  then show ?case
    by (subst request_bailout_loop.simps) auto
qed

lemma request_bailout_loop_below:
  "j < i \<Longrightarrow> request_bailout_loop i c ins ! j = ins ! j"
proof (induction i c ins rule: request_bailout_loop.induct)
  case (1 i c ins)
  then show ?case
    by (subst request_bailout_loop.simps) auto
qed

lemma request_bailout_loop_idem:
  "request_bailout_loop i c (request_bailout_loop i c ins) = request_bailout_loop i c ins"
proof (induction i c ins rule: request_bailout_loop.induct)
  case (1 i c ins)
  let ?r = "request_bailout_loop i c ins"
  show ?case
  proof (cases "i < length ins")
    case False
    then show ?thesis by (simp add: request_bailout_loop.simps[of i c ins])
  next
    case True
    note lt = this
    show ?thesis
    proof (cases "op (ins ! i) = GUARD \<or> op (ins ! i) = FAIL_GUARD")
      case False
      then have r: "?r = request_bailout_loop (i + 1) c ins"
        using lt by (subst request_bailout_loop.simps) simp
      have "?r ! i = ins ! i" unfolding r by (rule request_bailout_loop_below) simp
      then have "request_bailout_loop i c ?r = request_bailout_loop (i + 1) c ?r"
        using lt False by (subst request_bailout_loop.simps) simp
      also have "\<dots> = ?r" unfolding r using 1(2)[OF lt False] .
      finally show ?thesis .
    next
      case True
      note g = this
      show ?thesis
      proof (cases "c = 0")
        case True
        then have r: "?r = ins[i := (ins ! i)\<lparr>op := FAIL_GUARD\<rparr>]"
          using lt g by (subst request_bailout_loop.simps) simp
        show ?thesis unfolding r using lt
          by (subst request_bailout_loop.simps) (simp add: True)
      next
        case False
        then have r: "?r = request_bailout_loop (i + 1) (c - 1) ins"
          using lt g by (subst request_bailout_loop.simps) simp
        have "?r ! i = ins ! i" unfolding r by (rule request_bailout_loop_below) simp
        then have "request_bailout_loop i c ?r = request_bailout_loop (i + 1) (c - 1) ?r"
          using lt g False by (subst request_bailout_loop.simps) simp
        also have "\<dots> = ?r" unfolding r using 1(1)[OF lt g False] .
        finally show ?thesis .
      qed
    qed
  qed
qed

lemma request_bailout_loop_slot:
  "c < length (filter guard_slot (drop i ins)) \<Longrightarrow>
   \<exists>j. i \<le> j \<and> j < length ins \<and> guard_slot (ins ! j) \<and>
       length (filter guard_slot (take (j - i) (drop i ins))) = c \<and>
       request_bailout_loop i c ins = ins[j := (ins ! j)\<lparr>op := FAIL_GUARD\<rparr>]"
proof (induction i c ins rule: request_bailout_loop.induct)
  case (1 i c ins)
  have lt: "i < length ins" using 1(3) by (cases "i < length ins") auto
  then have d: "drop i ins = ins ! i # drop (i + 1) ins"
    by (simp add: Cons_nth_drop_Suc)
  show ?case
  proof (cases "guard_slot (ins ! i)")
    case False
    then have ng: "\<not> (op (ins ! i) = GUARD \<or> op (ins ! i) = FAIL_GUARD)"
      by (simp add: guard_slot_def)
    have "c < length (filter guard_slot (drop (i + 1) ins))" using 1(3) False d by simp
    from 1(2)[OF lt ng this] obtain j where j: "i + 1 \<le> j" "j < length ins"
      "guard_slot (ins ! j)"
      "length (filter guard_slot (take (j - (i + 1)) (drop (i + 1) ins))) = c"
      "request_bailout_loop (i + 1) c ins = ins[j := (ins ! j)\<lparr>op := FAIL_GUARD\<rparr>]"
      by blast
    have "j - i = Suc (j - (i + 1))" using j(1) by simp
    then have "length (filter guard_slot (take (j - i) (drop i ins))) = c"
      using j(4) False d by simp
    moreover have "request_bailout_loop i c ins = ins[j := (ins ! j)\<lparr>op := FAIL_GUARD\<rparr>]"
      using lt ng j(5) by (subst request_bailout_loop.simps) simp
    ultimately show ?thesis using j(1,2,3) by (intro exI[of _ j]) simp
  next
    case True
    then have g: "op (ins ! i) = GUARD \<or> op (ins ! i) = FAIL_GUARD"
      by (simp add: guard_slot_def)
    show ?thesis
    proof (cases "c = 0")
      case True
      have "request_bailout_loop i c ins = ins[i := (ins ! i)\<lparr>op := FAIL_GUARD\<rparr>]"
        using lt g True by (subst request_bailout_loop.simps) simp
      then show ?thesis using lt \<open>guard_slot (ins ! i)\<close> True by (intro exI[of _ i]) simp
    next
      case False
      have "c - 1 < length (filter guard_slot (drop (i + 1) ins))"
        using 1(3) True d False by simp
      from 1(1)[OF lt g False this] obtain j where j: "i + 1 \<le> j" "j < length ins"
        "guard_slot (ins ! j)"
        "length (filter guard_slot (take (j - (i + 1)) (drop (i + 1) ins))) = c - 1"
        "request_bailout_loop (i + 1) (c - 1) ins = ins[j := (ins ! j)\<lparr>op := FAIL_GUARD\<rparr>]"
        by blast
      have "j - i = Suc (j - (i + 1))" using j(1) by simp
      then have "length (filter guard_slot (take (j - i) (drop i ins))) = c"
        using j(4) True d False by simp
      moreover have "request_bailout_loop i c ins = ins[j := (ins ! j)\<lparr>op := FAIL_GUARD\<rparr>]"
        using lt g False j(5) by (subst request_bailout_loop.simps) simp
      ultimately show ?thesis using j(1,2,3) by (intro exI[of _ j]) simp
    qed
  qed
qed

lemma filter_guard_slot_no_fail:
  "list_all (\<lambda>x. op x \<noteq> FAIL_GUARD) xs \<Longrightarrow>
   filter guard_slot xs = filter (\<lambda>x. op x = GUARD) xs"
  by (induction xs) (auto simp: guard_slot_def)

lemma request_bailout_loop_none:
  "length (filter guard_slot (drop i ins)) \<le> c \<Longrightarrow> request_bailout_loop i c ins = ins"
proof (induction i c ins rule: request_bailout_loop.induct)
  case (1 i c ins)
  show ?case
  proof (cases "i < length ins")
    case False
    then show ?thesis by (subst request_bailout_loop.simps) simp
  next
    case True
    note lt = this
    then have d: "drop i ins = ins ! i # drop (i + 1) ins"
      by (simp add: Cons_nth_drop_Suc)
    show ?thesis
    proof (cases "op (ins ! i) = GUARD \<or> op (ins ! i) = FAIL_GUARD")
      case False
      then have "\<not> guard_slot (ins ! i)" by (simp add: guard_slot_def)
      then have "length (filter guard_slot (drop (i + 1) ins)) \<le> c"
        using 1(3) d by simp
      from 1(2)[OF lt False this] show ?thesis
        using lt False by (subst request_bailout_loop.simps) simp
    next
      case True
      then have "guard_slot (ins ! i)" by (simp add: guard_slot_def)
      then have le: "Suc (length (filter guard_slot (drop (i + 1) ins))) \<le> c"
        using 1(3) d by simp
      then have c: "c \<noteq> 0" and "length (filter guard_slot (drop (i + 1) ins)) \<le> c - 1"
        by simp_all
      from 1(1)[OF lt True c this(2)] show ?thesis
        using lt True c by (subst request_bailout_loop.simps) simp
    qed
  qed
qed

text \<open>
  Claim C3, as the code has it. The scan of \<^verbatim>\<open>request_bailout\<close> counts the instructions
  whose opcode is \<^verbatim>\<open>GUARD\<close> or \<^verbatim>\<open>FAIL_GUARD\<close>. A call \<^verbatim>\<open>request_bailout(k)\<close> is idempotent.
  With at most \<open>k\<close> such instructions it changes nothing. With more than \<open>k\<close> of them it
  sets the opcode of the one at the index \<open>i\<close> that has exactly \<open>k\<close> of them before it to
  \<^verbatim>\<open>FAIL_GUARD\<close>, also when that opcode is \<^verbatim>\<open>FAIL_GUARD\<close> already, and changes nothing
  else: not its \<^verbatim>\<open>X\<close> or \<^verbatim>\<open>N\<close>, no other instruction and no other part of the state. In
  a program without any \<^verbatim>\<open>FAIL_GUARD\<close>, that instruction is the \<^verbatim>\<open>GUARD\<close> with exactly \<open>k\<close>
  \<^verbatim>\<open>GUARD\<close>s before it.
\<close>

theorem request_bailout_kth_slot:
  "request_bailout k (request_bailout k s) = request_bailout k s \<and>
   (length (filter guard_slot (instructions s)) \<le> k \<longrightarrow> request_bailout k s = s) \<and>
   (k < length (filter guard_slot (instructions s)) \<longrightarrow>
      (\<exists>i. i < length (instructions s) \<and> guard_slot (instructions s ! i) \<and>
           length (filter guard_slot (take i (instructions s))) = k \<and>
           request_bailout k s =
             s\<lparr>instructions := (instructions s)[i := (instructions s ! i)\<lparr>op := FAIL_GUARD\<rparr>]\<rparr> \<and>
           (list_all (\<lambda>x. op x \<noteq> FAIL_GUARD) (instructions s) \<longrightarrow>
              op (instructions s ! i) = GUARD \<and>
              length (filter (\<lambda>x. op x = GUARD) (take i (instructions s))) = k)))"
proof (intro conjI impI)
  let ?ins = "instructions s"
  show "request_bailout k (request_bailout k s) = request_bailout k s"
    by (simp add: request_bailout_def request_bailout_loop_idem)
  show "request_bailout k s = s" if "length (filter guard_slot ?ins) \<le> k"
    using that request_bailout_loop_none[of 0 ?ins k] by (simp add: request_bailout_def)
  assume "k < length (filter guard_slot ?ins)"
  then have "k < length (filter guard_slot (drop 0 ?ins))" by simp
  from request_bailout_loop_slot[OF this] obtain j where j: "j < length ?ins"
    "guard_slot (?ins ! j)" "length (filter guard_slot (take j ?ins)) = k"
    "request_bailout_loop 0 k ?ins = ?ins[j := (?ins ! j)\<lparr>op := FAIL_GUARD\<rparr>]"
    by auto
  have r: "request_bailout k s = s\<lparr>instructions := ?ins[j := (?ins ! j)\<lparr>op := FAIL_GUARD\<rparr>]\<rparr>"
    by (simp add: request_bailout_def j(4))
  have fresh: "op (?ins ! j) = GUARD \<and> length (filter (\<lambda>x. op x = GUARD) (take j ?ins)) = k"
    if nf: "list_all (\<lambda>x. op x \<noteq> FAIL_GUARD) ?ins"
  proof -
    have "op (?ins ! j) \<noteq> FAIL_GUARD" using nf j(1) by (simp add: list_all_length)
    then have "op (?ins ! j) = GUARD" using j(2) by (simp add: guard_slot_def)
    moreover have "list_all (\<lambda>x. op x \<noteq> FAIL_GUARD) (take j ?ins)"
      using nf by (auto simp: list_all_iff dest: in_set_takeD)
    then have "length (filter (\<lambda>x. op x = GUARD) (take j ?ins)) = k"
      using j(3) by (simp add: filter_guard_slot_no_fail)
    ultimately show ?thesis by simp
  qed
  from j(1,2,3) r fresh
  show "\<exists>i. i < length ?ins \<and> guard_slot (?ins ! i) \<and>
           length (filter guard_slot (take i ?ins)) = k \<and>
           request_bailout k s = s\<lparr>instructions := ?ins[i := (?ins ! i)\<lparr>op := FAIL_GUARD\<rparr>]\<rparr> \<and>
           (list_all (\<lambda>x. op x \<noteq> FAIL_GUARD) ?ins \<longrightarrow>
              op (?ins ! i) = GUARD \<and> length (filter (\<lambda>x. op x = GUARD) (take i ?ins)) = k)"
    by blast
qed

lemma three_guards_requests:
  "map op (instructions three_guards) = [GUARD, JF, GUARD, JF, GUARD, JF, RET]"
  "map op (instructions (request_bailout 0 three_guards)) =
     [FAIL_GUARD, JF, GUARD, JF, GUARD, JF, RET]"
  "map op (instructions (request_bailout 1 (request_bailout 0 three_guards))) =
     [FAIL_GUARD, JF, FAIL_GUARD, JF, GUARD, JF, RET]"
  "map op (instructions (request_bailout 0 (request_bailout 0 three_guards))) =
     [FAIL_GUARD, JF, GUARD, JF, GUARD, JF, RET]"
  by code_simp+

theorem request_bailout_kth_slot_witness:
  "1 < length (filter guard_slot (instructions (request_bailout 0 three_guards))) \<and>
   \<not> list_all (\<lambda>x. op x \<noteq> FAIL_GUARD) (instructions (request_bailout 0 three_guards)) \<and>
   (\<exists>i. i < length (instructions (request_bailout 0 three_guards)) \<and>
      guard_slot (instructions (request_bailout 0 three_guards) ! i) \<and>
      length (filter guard_slot (take i (instructions (request_bailout 0 three_guards)))) = 1 \<and>
      request_bailout 1 (request_bailout 0 three_guards) =
        (request_bailout 0 three_guards)\<lparr>instructions :=
           (instructions (request_bailout 0 three_guards))
             [i := (instructions (request_bailout 0 three_guards) ! i)\<lparr>op := FAIL_GUARD\<rparr>]\<rparr>) \<and>
   list_all (\<lambda>x. op x \<noteq> FAIL_GUARD) (instructions three_guards) \<and>
   (\<exists>i. i < length (instructions three_guards) \<and>
      op (instructions three_guards ! i) = GUARD \<and>
      length (filter (\<lambda>x. op x = GUARD) (take i (instructions three_guards))) = 1 \<and>
      request_bailout 1 three_guards =
        three_guards\<lparr>instructions :=
           (instructions three_guards)[i := (instructions three_guards ! i)\<lparr>op := FAIL_GUARD\<rparr>]\<rparr>) \<and>
   request_bailout 7 three_guards = three_guards \<and>
   request_bailout 1 (request_bailout 1 three_guards) = request_bailout 1 three_guards"
proof -
  let ?p = "request_bailout 0 three_guards"
  have f0: "length (filter guard_slot xs) =
      length (filter (\<lambda>x. x = GUARD \<or> x = FAIL_GUARD) (map op xs))" for xs
    by (induction xs) (simp_all add: guard_slot_def)
  have f: "length (filter guard_slot (instructions s)) =
      length (filter (\<lambda>x. x = GUARD \<or> x = FAIL_GUARD) (map op (instructions s)))" for s
    by (rule f0)
  have h1: "1 < length (filter guard_slot (instructions ?p))"
    unfolding f three_guards_requests by simp
  have h2: "\<not> list_all (\<lambda>x. op x \<noteq> FAIL_GUARD) (instructions ?p)"
  proof -
    have "list_all (\<lambda>x. op x \<noteq> FAIL_GUARD) (instructions ?p) =
          list_all (\<lambda>x. x \<noteq> FAIL_GUARD) (map op (instructions ?p))"
      by (simp add: list_all_iff)
    then show ?thesis unfolding three_guards_requests by simp
  qed
  have h3: "1 < length (filter guard_slot (instructions three_guards))"
    unfolding f three_guards_requests by simp
  have h4: "list_all (\<lambda>x. op x \<noteq> FAIL_GUARD) (instructions three_guards)"
  proof -
    have "list_all (\<lambda>x. op x \<noteq> FAIL_GUARD) (instructions three_guards) =
          list_all (\<lambda>x. x \<noteq> FAIL_GUARD) (map op (instructions three_guards))"
      by (simp add: list_all_iff)
    then show ?thesis unfolding three_guards_requests by simp
  qed
  have h5: "length (filter guard_slot (instructions three_guards)) \<le> 7"
    unfolding f three_guards_requests by simp
  from request_bailout_kth_slot[of 1 ?p] h1
  have a: "\<exists>i. i < length (instructions ?p) \<and> guard_slot (instructions ?p ! i) \<and>
      length (filter guard_slot (take i (instructions ?p))) = 1 \<and>
      request_bailout 1 ?p =
        ?p\<lparr>instructions := (instructions ?p)[i := (instructions ?p ! i)\<lparr>op := FAIL_GUARD\<rparr>]\<rparr>"
    by blast
  from request_bailout_kth_slot[of 1 three_guards] h3 h4
  have b: "\<exists>i. i < length (instructions three_guards) \<and>
      op (instructions three_guards ! i) = GUARD \<and>
      length (filter (\<lambda>x. op x = GUARD) (take i (instructions three_guards))) = 1 \<and>
      request_bailout 1 three_guards =
        three_guards\<lparr>instructions :=
           (instructions three_guards)[i := (instructions three_guards ! i)\<lparr>op := FAIL_GUARD\<rparr>]\<rparr>"
    by blast
  from request_bailout_kth_slot[of 7 three_guards] h5
  have c: "request_bailout 7 three_guards = three_guards" by blast
  from request_bailout_kth_slot[of 1 three_guards]
  have d: "request_bailout 1 (request_bailout 1 three_guards) = request_bailout 1 three_guards"
    by blast
  from h1 h2 a h4 b c d show ?thesis by (intro conjI)
qed

text \<open>
  After \<^verbatim>\<open>request_bailout(0)\<close> on a program with three guards, two \<^verbatim>\<open>GUARD\<close>s remain, at
  indices 2 and 4. \<^verbatim>\<open>request_bailout(1)\<close> then rewrites the instruction at index 2, which
  has no \<^verbatim>\<open>GUARD\<close> before it, and leaves the one at index 4, which has one \<^verbatim>\<open>GUARD\<close> before
  it, as it is. A second \<^verbatim>\<open>request_bailout(0)\<close> changes no \<^verbatim>\<open>GUARD\<close> at all.
\<close>

theorem request_bailout_counts_failed_counterexample:
  "map op (instructions (request_bailout 0 three_guards)) =
     [FAIL_GUARD, JF, GUARD, JF, GUARD, JF, RET] \<and>
   map op (instructions (request_bailout 1 (request_bailout 0 three_guards))) =
     [FAIL_GUARD, JF, FAIL_GUARD, JF, GUARD, JF, RET] \<and>
   map op (instructions (request_bailout 0 (request_bailout 0 three_guards))) =
     [FAIL_GUARD, JF, GUARD, JF, GUARD, JF, RET]"
  using three_guards_requests by simp

section \<open>The mobile pre-pass\<close>

lemma max_necessary_args_skip:
  "n \<notin> set (call_sites [n]) \<Longrightarrow>
   max_necessary_args cna (n # rest) name = max_necessary_args cna rest name"
  by (simp add: max_necessary_args_def call_sites_def split: if_splits)

lemma Max_set_Cons:
  "Max (set (x # xs)) = (case xs of [] \<Rightarrow> x | y # ys \<Rightarrow> max x (Max (set xs)))"
  by (cases xs) simp_all

lemma max_necessary_args_site:
  assumes "n \<in> set (call_sites [n])"
  shows "max_necessary_args cna (n # rest) name =
     (if site_name n = name
      then Some (case max_necessary_args cna rest name of
                   None \<Rightarrow> site_args cna n | Some m \<Rightarrow> max (site_args cna n) m)
      else max_necessary_args cna rest name)"
proof -
  define counts where
    "counts ns = map (site_args cna) (filter (\<lambda>m. site_name m = name) (call_sites ns))" for ns
  have m: "max_necessary_args cna ns name =
      (if counts ns = [] then None else Some (Max (set (counts ns))))" for ns
    by (simp add: max_necessary_args_def counts_def)
  have cs: "call_sites (n # rest) = n # call_sites rest"
    using assms by (simp add: call_sites_def split: if_splits)
  have c: "counts (n # rest) =
      (if site_name n = name then site_args cna n # counts rest else counts rest)"
    by (simp add: counts_def cs)
  show ?thesis
  proof (cases "site_name n = name")
    case False
    then show ?thesis by (simp add: m c)
  next
    case True
    then have "counts (n # rest) = site_args cna n # counts rest" by (simp add: c)
    then show ?thesis
      unfolding m using True by (cases "counts rest") (simp_all only: Max_set_Cons list.case
          if_True if_False list.distinct option.case refl simp_thms)
  qed
qed

lemma process_ops_loop_table:
  "process_ops_loop cna ns s =
     s\<lparr>op_to_num_specified_args :=
         (\<lambda>name. case max_necessary_args cna ns name of
                    None \<Rightarrow> op_to_num_specified_args s name
                  | Some m \<Rightarrow> Some (max m (case op_to_num_specified_args s name of
                                              None \<Rightarrow> 0 | Some v \<Rightarrow> v)))\<rparr>"
proof (induction ns arbitrary: s)
  case Nil
  then show ?case by (simp add: max_necessary_args_def call_sites_def)
next
  case (Cons n rest)
  show ?case
  proof (cases "n \<in> set (call_sites [n])")
    case False
    then have "process_ops_loop cna (n # rest) s = process_ops_loop cna rest s"
      by (auto simp: call_sites_def split: option.splits if_splits)
    then show ?thesis
      using Cons.IH[of s] max_necessary_args_skip[OF False, of cna rest] by simp
  next
    case True
    then obtain op_schema where o: "maybeOperator (info n) = Some op_schema"
      "\<not> is_vararg op_schema"
      by (auto simp: call_sites_def split: option.splits if_splits)
    let ?u = "site_name n" and ?c = "site_args cna n"
    let ?prev = "case op_to_num_specified_args s ?u of None \<Rightarrow> 0 | Some v \<Rightarrow> v"
    let ?s1 = "s\<lparr>op_to_num_specified_args := (op_to_num_specified_args s)(?u \<mapsto> max ?c ?prev)\<rparr>"
    have step: "process_ops_loop cna (n # rest) s = process_ops_loop cna rest ?s1"
      using o by (simp add: site_name_def site_args_def Let_def)
    have "(\<lambda>name. case max_necessary_args cna rest name of
                    None \<Rightarrow> op_to_num_specified_args ?s1 name
                  | Some m \<Rightarrow> Some (max m (case op_to_num_specified_args ?s1 name of
                                              None \<Rightarrow> 0 | Some v \<Rightarrow> v))) =
          (\<lambda>name. case max_necessary_args cna (n # rest) name of
                    None \<Rightarrow> op_to_num_specified_args s name
                  | Some m \<Rightarrow> Some (max m (case op_to_num_specified_args s name of
                                              None \<Rightarrow> 0 | Some v \<Rightarrow> v)))"
      by (rule ext) (auto simp: max_necessary_args_site[OF True] split: option.splits)
    then show ?thesis unfolding step Cons.IH[of ?s1] by simp
  qed
qed

lemma max_necessary_args_site_Max:
  assumes "n \<in> set (call_sites ns)"
  shows "max_necessary_args cna ns (site_name n) =
           Some (Max (site_args cna ` {m \<in> set (call_sites ns). site_name m = site_name n}))"
proof -
  have "n \<in> set (filter (\<lambda>m. site_name m = site_name n) (call_sites ns))"
    using assms by simp
  then have "filter (\<lambda>m. site_name m = site_name n) (call_sites ns) \<noteq> []"
    by (metis empty_iff empty_set)
  moreover have "set (map (site_args cna) (filter (\<lambda>m. site_name m = site_name n) (call_sites ns)))
      = site_args cna ` {m \<in> set (call_sites ns). site_name m = site_name n}"
    by auto
  ultimately show ?thesis by (simp add: max_necessary_args_def Let_def)
qed

lemma max_necessary_args_None:
  "name \<notin> site_name ` set (call_sites ns) \<Longrightarrow> max_necessary_args cna ns name = None"
  by (auto simp: max_necessary_args_def Let_def filter_empty_conv)

lemma unique_name_inj:
  assumes "CHR ''.'' \<notin> set (schema_name a)" and "CHR ''.'' \<notin> set (schema_name b)"
    and "unique_name a = unique_name b"
  shows "schema_name a = schema_name b \<and> overload_name a = overload_name b"
proof -
  have tw: "takeWhile (\<lambda>c. c \<noteq> CHR ''.'') (xs @ CHR ''.'' # ys) = xs"
    if "CHR ''.'' \<notin> set xs" for xs ys :: string
    using that by (induction xs) auto
  show ?thesis
  proof (cases "overload_name a = []")
    case True
    note ea = this
    show ?thesis
    proof (cases "overload_name b = []")
      case True
      with ea assms(3) show ?thesis by (simp add: unique_name_def)
    next
      case False
      with ea assms(3) have "schema_name a = schema_name b @ CHR ''.'' # overload_name b"
        by (simp add: unique_name_def)
      then have "CHR ''.'' \<in> set (schema_name a)" by simp
      with assms(1) show ?thesis by simp
    qed
  next
    case False
    note na = this
    show ?thesis
    proof (cases "overload_name b = []")
      case True
      with na assms(3) have "schema_name b = schema_name a @ CHR ''.'' # overload_name a"
        by (simp add: unique_name_def)
      then have "CHR ''.'' \<in> set (schema_name b)" by simp
      with assms(2) show ?thesis by simp
    next
      case False
      with na assms(3) have e: "schema_name a @ CHR ''.'' # overload_name a =
          schema_name b @ CHR ''.'' # overload_name b"
        by (simp add: unique_name_def)
      have "schema_name a = takeWhile (\<lambda>c. c \<noteq> CHR ''.'') (schema_name a @ CHR ''.'' # overload_name a)"
        using tw[OF assms(1)] by simp
      also have "\<dots> = schema_name b" unfolding e using tw[OF assms(2)] by simp
      finally have "schema_name a = schema_name b" .
      with e show ?thesis by simp
    qed
  qed
qed

text \<open>
  Claim C9, as the code has it. The pre-pass changes nothing but
  \<^verbatim>\<open>op_to_num_specified_args_\<close>. Started on the empty table, as the constructor does, it
  leaves the table that maps the unique name of every call site with a schema that is
  not vararg to the maximum of \<^verbatim>\<open>CalculateNecessaryArgs\<close> over the call sites with the
  same unique name, and no other name to anything; call sites with a vararg schema
  and nodes without operator count for nothing. Started on any table, it raises the
  entries of these names to that maximum and keeps the others. Call sites are grouped
  by the string of their unique name: the maximum is the one over the call sites of
  the same pair of schema name and overload name when no schema name of a call site
  holds a dot.
\<close>

theorem process_ops_for_mobile_table:
  "process_ops_for_mobile cna graph s =
     s\<lparr>op_to_num_specified_args :=
         (\<lambda>name. case max_necessary_args cna (DepthFirstGraphNodeIterator graph) name of
                    None \<Rightarrow> op_to_num_specified_args s name
                  | Some m \<Rightarrow> Some (max m (case op_to_num_specified_args s name of
                                              None \<Rightarrow> 0 | Some v \<Rightarrow> v)))\<rparr> \<and>
   (op_to_num_specified_args s = Map.empty \<longrightarrow>
      process_ops_for_mobile cna graph s =
        s\<lparr>op_to_num_specified_args :=
            max_necessary_args cna (DepthFirstGraphNodeIterator graph)\<rparr> \<and>
      (\<forall>n \<in> set (call_sites (DepthFirstGraphNodeIterator graph)).
         op_to_num_specified_args (process_ops_for_mobile cna graph s) (site_name n) =
           Some (Max (site_args cna `
                   {m \<in> set (call_sites (DepthFirstGraphNodeIterator graph)).
                    site_name m = site_name n}))) \<and>
      (\<forall>name. name \<notin> site_name ` set (call_sites (DepthFirstGraphNodeIterator graph)) \<longrightarrow>
         op_to_num_specified_args (process_ops_for_mobile cna graph s) name = None) \<and>
      ((\<forall>m \<in> set (call_sites (DepthFirstGraphNodeIterator graph)).
          CHR ''.'' \<notin> set (fst (site_pair m))) \<longrightarrow>
       (\<forall>n \<in> set (call_sites (DepthFirstGraphNodeIterator graph)).
          op_to_num_specified_args (process_ops_for_mobile cna graph s) (site_name n) =
            Some (Max (site_args cna `
                    {m \<in> set (call_sites (DepthFirstGraphNodeIterator graph)).
                     site_pair m = site_pair n})))))"
proof -
  let ?ns = "DepthFirstGraphNodeIterator graph"
  let ?r = "process_ops_for_mobile cna graph s"
  have gen: "?r = s\<lparr>op_to_num_specified_args :=
         (\<lambda>name. case max_necessary_args cna ?ns name of
                    None \<Rightarrow> op_to_num_specified_args s name
                  | Some m \<Rightarrow> Some (max m (case op_to_num_specified_args s name of
                                              None \<Rightarrow> 0 | Some v \<Rightarrow> v)))\<rparr>"
    by (simp add: process_ops_for_mobile_def process_ops_loop_table)
  have emp: "?r = s\<lparr>op_to_num_specified_args := max_necessary_args cna ?ns\<rparr>"
    if e: "op_to_num_specified_args s = Map.empty"
  proof -
    have "(\<lambda>name. case max_necessary_args cna ?ns name of
                    None \<Rightarrow> op_to_num_specified_args s name
                  | Some m \<Rightarrow> Some (max m (case op_to_num_specified_args s name of
                                              None \<Rightarrow> 0 | Some v \<Rightarrow> v))) =
          max_necessary_args cna ?ns"
      by (rule ext) (simp add: e split: option.splits)
    with gen show ?thesis by simp
  qed
  have site: "op_to_num_specified_args ?r (site_name n) =
           Some (Max (site_args cna ` {m \<in> set (call_sites ?ns). site_name m = site_name n}))"
    if "op_to_num_specified_args s = Map.empty" "n \<in> set (call_sites ?ns)" for n
    using emp[OF that(1)] max_necessary_args_site_Max[OF that(2), of cna] by simp
  have none: "op_to_num_specified_args ?r name = None"
    if "op_to_num_specified_args s = Map.empty" "name \<notin> site_name ` set (call_sites ?ns)"
    for name
    using emp[OF that(1)] max_necessary_args_None[OF that(2), of cna] by simp
  have pair: "op_to_num_specified_args ?r (site_name n) =
           Some (Max (site_args cna ` {m \<in> set (call_sites ?ns). site_pair m = site_pair n}))"
    if e: "op_to_num_specified_args s = Map.empty"
      and dots: "\<forall>m \<in> set (call_sites ?ns). CHR ''.'' \<notin> set (fst (site_pair m))"
      and n: "n \<in> set (call_sites ?ns)" for n
  proof -
    have "site_name m = site_name n \<longleftrightarrow> site_pair m = site_pair n"
      if m: "m \<in> set (call_sites ?ns)" for m
    proof -
      from m obtain a where a: "maybeOperator (info m) = Some a"
        by (auto simp: call_sites_def split: option.splits)
      from n obtain b where b: "maybeOperator (info n) = Some b"
        by (auto simp: call_sites_def split: option.splits)
      have da: "CHR ''.'' \<notin> set (schema_name a)" using dots m a by (auto simp: site_pair_def)
      have db: "CHR ''.'' \<notin> set (schema_name b)" using dots n b by (auto simp: site_pair_def)
      show ?thesis
        using unique_name_inj[OF da db] a b
        by (auto simp: site_name_def site_pair_def unique_name_def)
    qed
    then have "{m \<in> set (call_sites ?ns). site_name m = site_name n} =
               {m \<in> set (call_sites ?ns). site_pair m = site_pair n}"
      by blast
    with site[OF e n] show ?thesis by simp
  qed
  from gen emp site none pair show ?thesis by blast
qed

lemma clash_sites:
  "map (\<lambda>n. (site_pair n, site_name n, site_args (\<lambda>args ins. length ins) n))
     (call_sites (DepthFirstGraphNodeIterator clash_graph)) =
   [((''a.b'', []), ''a.b'', 1), ((''a'', ''b''), ''a.b'', 2)]"
  by code_simp

lemma clash_table:
  "op_to_num_specified_args
     (process_ops_for_mobile (\<lambda>args ins. length ins) clash_graph
        (init_CodeImpl (\<lambda>_. False) False clash_graph)) ''a.b'' = Some 2"
  by code_simp

theorem process_ops_for_mobile_table_witness:
  "op_to_num_specified_args (init_CodeImpl (\<lambda>_. False) False clash_graph) = Map.empty \<and>
   process_ops_for_mobile (\<lambda>args ins. length ins) clash_graph
       (init_CodeImpl (\<lambda>_. False) False clash_graph) =
     (init_CodeImpl (\<lambda>_. False) False clash_graph)
       \<lparr>op_to_num_specified_args :=
          max_necessary_args (\<lambda>args ins. length ins) (DepthFirstGraphNodeIterator clash_graph)\<rparr> \<and>
   list_all (\<lambda>n. op_to_num_specified_args
        (process_ops_for_mobile (\<lambda>args ins. length ins) clash_graph
           (init_CodeImpl (\<lambda>_. False) False clash_graph)) (site_name n) =
        Some (Max (site_args (\<lambda>args ins. length ins) `
                {m \<in> set (call_sites (DepthFirstGraphNodeIterator clash_graph)).
                 site_name m = site_name n})))
     (call_sites (DepthFirstGraphNodeIterator clash_graph)) \<and>
   length (call_sites (DepthFirstGraphNodeIterator clash_graph)) = 2"
proof -
  have e: "op_to_num_specified_args (init_CodeImpl (\<lambda>_. False) False clash_graph) = Map.empty"
    by (simp add: init_CodeImpl_def)
  have l: "length (call_sites (DepthFirstGraphNodeIterator clash_graph)) = 2"
    using arg_cong[OF clash_sites, of length] by simp
  note t = process_ops_for_mobile_table[of "\<lambda>args ins. length ins" clash_graph
      "init_CodeImpl (\<lambda>_. False) False clash_graph"]
  have a: "process_ops_for_mobile (\<lambda>args ins. length ins) clash_graph
       (init_CodeImpl (\<lambda>_. False) False clash_graph) =
     (init_CodeImpl (\<lambda>_. False) False clash_graph)
       \<lparr>op_to_num_specified_args :=
          max_necessary_args (\<lambda>args ins. length ins) (DepthFirstGraphNodeIterator clash_graph)\<rparr>"
    using t e by blast
  have b: "\<forall>n \<in> set (call_sites (DepthFirstGraphNodeIterator clash_graph)).
      op_to_num_specified_args
        (process_ops_for_mobile (\<lambda>args ins. length ins) clash_graph
           (init_CodeImpl (\<lambda>_. False) False clash_graph)) (site_name n) =
        Some (Max (site_args (\<lambda>args ins. length ins) `
                {m \<in> set (call_sites (DepthFirstGraphNodeIterator clash_graph)).
                 site_name m = site_name n}))"
    using t e by blast
  from e a b l show ?thesis unfolding list_all_iff by (intro conjI)
qed

text \<open>
  The two call sites of \<open>clash_graph\<close> belong to different pairs of schema name and
  overload name, need 1 and 2 arguments, and have the same unique name \<open>a.b\<close>, which
  the pre-pass maps to 2: not the maximum over the call sites of the first pair.
\<close>

theorem process_ops_for_mobile_clash_counterexample:
  "map (\<lambda>n. (site_pair n, site_name n, site_args (\<lambda>args ins. length ins) n))
     (call_sites (DepthFirstGraphNodeIterator clash_graph)) =
     [((''a.b'', []), ''a.b'', 1), ((''a'', ''b''), ''a.b'', 2)] \<and>
   op_to_num_specified_args
     (process_ops_for_mobile (\<lambda>args ins. length ins) clash_graph
        (init_CodeImpl (\<lambda>_. False) False clash_graph)) ''a.b'' = Some 2"
  using clash_sites clash_table by simp

section \<open>The emitter ignores the fields of the mobile compiler\<close>

lemma set_mobile_sel [simp]:
  "instructions (set_mobile b m s) = instructions s"
  "instructions_source (set_mobile b m s) = instructions_source s"
  "constant_table (set_mobile b m s) = constant_table s"
  "operator_table (set_mobile b m s) = operator_table s"
  "function_table (set_mobile b m s) = function_table s"
  "forked_functions (set_mobile b m s) = forked_functions s"
  "type_table (set_mobile b m s) = type_table s"
  "profile_function_table (set_mobile b m s) = profile_function_table s"
  "register_size (set_mobile b m s) = register_size s"
  "can_emit_inline (set_mobile b m s) = can_emit_inline s"
  "value_to_reg (set_mobile b m s) = value_to_reg s"
  "use_count (set_mobile b m s) = use_count s"
  "current_node (set_mobile b m s) = current_node s"
  "last_inserted_op (set_mobile b m s) = last_inserted_op s"
  "bailout_blocks (set_mobile b m s) = bailout_blocks s"
  "bailout_functions (set_mobile b m s) = bailout_functions s"
  "FLAGS_torch_jit_disable_warning_prints (set_mobile b m s) =
     FLAGS_torch_jit_disable_warning_prints s"
  "is_MobileCodeImpl (set_mobile b m s) = b"
  "op_to_num_specified_args (set_mobile b m s) = m"
  by (simp_all add: set_mobile_def)

lemma set_mobile_upd [simp]:
  "(set_mobile b m s)\<lparr>instructions := x1\<rparr> = set_mobile b m (s\<lparr>instructions := x1\<rparr>)"
  "(set_mobile b m s)\<lparr>instructions_source := x2\<rparr> = set_mobile b m (s\<lparr>instructions_source := x2\<rparr>)"
  "(set_mobile b m s)\<lparr>constant_table := x3\<rparr> = set_mobile b m (s\<lparr>constant_table := x3\<rparr>)"
  "(set_mobile b m s)\<lparr>operator_table := x4\<rparr> = set_mobile b m (s\<lparr>operator_table := x4\<rparr>)"
  "(set_mobile b m s)\<lparr>function_table := x5\<rparr> = set_mobile b m (s\<lparr>function_table := x5\<rparr>)"
  "(set_mobile b m s)\<lparr>forked_functions := x6\<rparr> = set_mobile b m (s\<lparr>forked_functions := x6\<rparr>)"
  "(set_mobile b m s)\<lparr>type_table := x7\<rparr> = set_mobile b m (s\<lparr>type_table := x7\<rparr>)"
  "(set_mobile b m s)\<lparr>profile_function_table := x8\<rparr> =
     set_mobile b m (s\<lparr>profile_function_table := x8\<rparr>)"
  "(set_mobile b m s)\<lparr>register_size := x9\<rparr> = set_mobile b m (s\<lparr>register_size := x9\<rparr>)"
  "(set_mobile b m s)\<lparr>value_to_reg := x10\<rparr> = set_mobile b m (s\<lparr>value_to_reg := x10\<rparr>)"
  "(set_mobile b m s)\<lparr>use_count := x11\<rparr> = set_mobile b m (s\<lparr>use_count := x11\<rparr>)"
  "(set_mobile b m s)\<lparr>current_node := x12\<rparr> = set_mobile b m (s\<lparr>current_node := x12\<rparr>)"
  "(set_mobile b m s)\<lparr>last_inserted_op := x13\<rparr> = set_mobile b m (s\<lparr>last_inserted_op := x13\<rparr>)"
  "(set_mobile b m s)\<lparr>bailout_blocks := x14\<rparr> = set_mobile b m (s\<lparr>bailout_blocks := x14\<rparr>)"
  "(set_mobile b m s)\<lparr>bailout_functions := x15\<rparr> = set_mobile b m (s\<lparr>bailout_functions := x15\<rparr>)"
  by (simp_all add: set_mobile_def)

lemma same_run_Inr [intro!, simp]: "same_run b m (Inr (set_mobile b m s)) (Inr s)"
  by (simp add: same_run_def)

lemma same_run_Inl [intro!, simp]: "same_run b m (Inl e) (Inl e)"
  by (simp add: same_run_def)

lemma same_guard_Inr [intro!, simp]: "same_guard b m (Inr (jf, set_mobile b m s)) (Inr (jf, s))"
  by (simp add: same_guard_def)

lemma same_guard_Inl [intro!, simp]: "same_guard b m (Inl e) (Inl e)"
  by (simp add: same_guard_def)

lemma same_run_andThen:
  assumes "same_run b m r' r"
    and "\<And>a. r = Inr a \<Longrightarrow> same_run b m (f' (set_mobile b m a)) (f a)"
  shows "same_run b m (andThen r' f') (andThen r f)"
  using assms by (cases r) (simp_all add: same_run_def)

lemma same_run_andThen_guard:
  assumes "same_guard b m r' r"
    and "\<And>jf a. r = Inr (jf, a) \<Longrightarrow> same_run b m (f' (jf, set_mobile b m a)) (f (jf, a))"
  shows "same_run b m (andThen r' f') (andThen r f)"
  using assms by (cases r) (auto simp: same_run_def same_guard_def)

lemma same_guard_andThen:
  assumes "same_run b m r' r"
    and "\<And>a. r = Inr a \<Longrightarrow> same_guard b m (f' (set_mobile b m a)) (f a)"
  shows "same_guard b m (andThen r' f') (andThen r f)"
  using assms by (cases r) (simp_all add: same_run_def same_guard_def)

lemma same_run_value:
  assumes "\<And>a. r = Inr a \<Longrightarrow> same_run b m (f' a) (f a)"
  shows "same_run b m (andThen r f') (andThen r f)"
  using assms by (cases r) (simp_all add: same_run_def)

lemma same_guard_value:
  assumes "\<And>a. r = Inr a \<Longrightarrow> same_guard b m (f' a) (f a)"
  shows "same_guard b m (andThen r f') (andThen r f)"
  using assms by (cases r) (simp_all add: same_guard_def)

lemma same_run_insertInstruction [intro!, simp]:
  "same_run b m (insertInstruction opc x n (set_mobile b m s)) (insertInstruction opc x n s)"
  by (simp add: insertInstruction_def Let_def same_run_def split: option.splits)

lemma same_run_set_X [intro!, simp]:
  "same_run b m (set_X i x (set_mobile b m s)) (set_X i x s)"
  by (simp add: set_X_def same_run_def)

lemma same_run_createBailoutBlock [intro!, simp]:
  "same_run b m (createBailoutBlock jf (set_mobile b m s)) (createBailoutBlock jf s)"
  by (simp add: createBailoutBlock_def truncateInstructions_def Let_def same_run_def)

lemma same_run_allocRegs_loop:
  "same_run b m (allocRegs_loop vs (set_mobile b m s)) (allocRegs_loop vs s)"
  by (induction vs arbitrary: s) simp_all

lemma same_run_allocRegs:
  assumes "\<And>r a. same_run b m (g (r, set_mobile b m a)) (g (r, a))"
  shows "same_run b m (andThen (allocRegs vs (set_mobile b m s)) g) (andThen (allocRegs vs s) g)"
  using same_run_allocRegs_loop[of b m vs s] assms
  by (cases "allocRegs_loop vs s") (simp_all add: allocRegs_def Let_def same_run_def)

lemma same_run_emitStoreOutputs [intro!, simp]:
  "same_run b m (emitStoreOutputs node (set_mobile b m s)) (emitStoreOutputs node s)"
  unfolding emitStoreOutputs_def Let_def
  by (auto intro!: same_run_allocRegs)

lemma emitTypes_set_mobile [simp]:
  "emitTypes ts (set_mobile b m s) = set_mobile b m (emitTypes ts s)"
  by (induction ts arbitrary: s) (simp_all add: emitType_def)

lemma registerFor_set_mobile [simp]: "registerFor v (set_mobile b m s) = registerFor v s"
  by (simp add: registerFor_def)

lemma same_run_emitConstant [intro!, simp]:
  "same_run b m (emitConstant node (set_mobile b m s)) (emitConstant node s)"
  by (auto simp: emitConstant_def insertConstant_def intro!: same_run_value
      split: option.splits)

lemma same_run_emitCreateObject [intro!, simp]:
  "same_run b m (emitCreateObject node (set_mobile b m s)) (emitCreateObject node s)"
  by (auto simp: emitCreateObject_def emitType_def intro!: same_run_value)

lemma same_run_emitExit [intro!, simp]:
  "same_run b m (emitExit node (set_mobile b m s)) (emitExit node s)"
  by (simp add: emitExit_def)

lemma same_run_restore [intro!, simp]:
  "same_run b m (restore_current_node (set_mobile b m s) (set_mobile b m t))
     (restore_current_node s t)"
  by (simp add: restore_current_node_def)

lemma same_run_insertBailoutBlocks_loop:
  "same_run b m (insertBailoutBlocks_loop bs (set_mobile b m s)) (insertBailoutBlocks_loop bs s)"
  by (induction bs arbitrary: s) (simp_all add: Let_def set_X_def)
lemma mobile_fields_ignored:
  shows "same_run b m (emitUse input do_drop (set_mobile b m s)) (emitUse input do_drop s)"
    and "same_run b m (emitLoadInputs vs (set_mobile b m s)) (emitLoadInputs vs s)"
    and "same_run b m (emitDrop vs (set_mobile b m s)) (emitDrop vs s)"
    and "same_run b m (CodeImpl_emitOperator node (set_mobile b m s)) (CodeImpl_emitOperator node s)"
    and "same_run b m (MobileCodeImpl_emitOperator node (set_mobile b m s)) (MobileCodeImpl_emitOperator node s)"
    and "same_run b m (emitWait node (set_mobile b m s)) (emitWait node s)"
    and "same_run b m (emitIf node (set_mobile b m s)) (emitIf node s)"
    and "same_run b m (emitLoop node (set_mobile b m s)) (emitLoop node s)"
    and "same_run b m (emitCall func vs (set_mobile b m s)) (emitCall func vs s)"
    and "same_run b m (emitNodeAtBlockLevel node (set_mobile b m s)) (emitNodeAtBlockLevel node s)"
    and "same_run b m (emitTypeCheck node (set_mobile b m s)) (emitTypeCheck node s)"
    and "same_guard b m (emitGuard node (set_mobile b m s)) (emitGuard node s)"
    and "same_run b m (emitBailOut node (set_mobile b m s)) (emitBailOut node s)"
    and "same_run b m (emitProfile node (set_mobile b m s)) (emitProfile node s)"
    and "same_run b m (emitGetAttr node (set_mobile b m s)) (emitGetAttr node s)"
    and "same_run b m (emitSetAttr node (set_mobile b m s)) (emitSetAttr node s)"
    and "same_run b m (emitInterfaceCall name vs (set_mobile b m s)) (emitInterfaceCall name vs s)"
    and "same_run b m (emitListUnpack node (set_mobile b m s)) (emitListUnpack node s)"
    and "same_run b m (emitTupleConstruct node (set_mobile b m s)) (emitTupleConstruct node s)"
    and "same_run b m (emitContainerConstruct opc node (set_mobile b m s)) (emitContainerConstruct opc node s)"
    and "same_run b m (emitIsinstance node (set_mobile b m s)) (emitIsinstance node s)"
    and "same_run b m (emitTupleSlice node (set_mobile b m s)) (emitTupleSlice node s)"
    and "same_run b m (emitFork node (set_mobile b m s)) (emitFork node s)"
    and "same_run b m (emitWarn node (set_mobile b m s)) (emitWarn node s)"
    and "same_run b m (emitEnter node (set_mobile b m s)) (emitEnter node s)"
    and "same_run b m (emitNode node (set_mobile b m s)) (emitNode node s)"
    and "same_run b m (emitCodeForBlock blk (set_mobile b m s)) (emitCodeForBlock blk s)"
    and "same_run b m (emitNodes ns (set_mobile b m s)) (emitNodes ns s)"
proof (induct input do_drop s and vs s and vs s and node s and node s and node s and node s and node s and func vs s and node s and node s and node s and node s and node s and node s and node s and name vs s and node s and node s and opc node s and node s and node s and node s and node s and node s and node s and blk s and ns s
    rule: emitUse_emitLoadInputs_emitDrop_CodeImpl_emitOperator_MobileCodeImpl_emitOperator_emitWait_emitIf_emitLoop_emitCall_emitNodeAtBlockLevel_emitTypeCheck_emitGuard_emitBailOut_emitProfile_emitGetAttr_emitSetAttr_emitInterfaceCall_emitListUnpack_emitTupleConstruct_emitContainerConstruct_emitIsinstance_emitTupleSlice_emitFork_emitWarn_emitEnter_emitNode_emitCodeForBlock_emitNodes.induct)
  case (1 input do_drop s)
  then show ?case
    by (auto simp: emitUse.simps Let_def emitType_def insertConstant_def
        intro!: same_run_andThen same_run_value same_guard_andThen same_guard_value same_run_andThen_guard )
next
  case (2 s)
  then show ?case
    by (auto simp: emitLoadInputs.simps Let_def emitType_def insertConstant_def
        intro!: same_run_andThen same_run_value same_guard_andThen same_guard_value same_run_andThen_guard )
next
  case (3 input rest s)
  then show ?case
    by (auto simp: emitLoadInputs.simps Let_def emitType_def insertConstant_def
        intro!: same_run_andThen same_run_value same_guard_andThen same_guard_value same_run_andThen_guard )
next
  case (4 s)
  then show ?case
    by (auto simp: emitDrop.simps Let_def emitType_def insertConstant_def
        intro!: same_run_andThen same_run_value same_guard_andThen same_guard_value same_run_andThen_guard )
next
  case (5 input rest s)
  then show ?case
    by (auto simp: emitDrop.simps Let_def emitType_def insertConstant_def
        intro!: same_run_andThen same_run_value same_guard_andThen same_guard_value same_run_andThen_guard )
next
  case (6 node s)
  then show ?case
    by (auto simp: CodeImpl_emitOperator.simps Let_def emitType_def insertConstant_def
        intro!: same_run_andThen same_run_value same_guard_andThen same_guard_value same_run_andThen_guard split: option.splits)
next
  case (7 node s)
  then show ?case
    by (auto simp: MobileCodeImpl_emitOperator.simps Let_def emitType_def insertConstant_def
        intro!: same_run_andThen same_run_value same_guard_andThen same_guard_value same_run_andThen_guard )
next
  case (8 node s)
  then show ?case
    by (auto simp: emitWait.simps Let_def emitType_def insertConstant_def
        intro!: same_run_andThen same_run_value same_guard_andThen same_guard_value same_run_andThen_guard )
next
  case (9 node s)
  then show ?case
    by (auto simp: emitIf.simps Let_def emitType_def insertConstant_def
        intro!: same_run_andThen same_run_value same_guard_andThen same_guard_value same_run_andThen_guard )
next
  case (10 node s)
  then show ?case
    by (auto simp: emitLoop.simps Let_def emitType_def insertConstant_def
        intro!: same_run_andThen same_run_value same_guard_andThen same_guard_value same_run_andThen_guard )
next
  case (11 func vs s)
  then show ?case
    by (auto simp: emitCall.simps Let_def emitType_def insertConstant_def
        intro!: same_run_andThen same_run_value same_guard_andThen same_guard_value same_run_andThen_guard )
next
  case (12 node s)
  let ?s = "s\<lparr>current_node := info node\<rparr>"
  consider (const) "kind (info node) = prim_Constant" | (ret) "kind (info node) = prim_Return"
    | (other) "kind (info node) \<noteq> prim_Constant" "kind (info node) \<noteq> prim_Return"
    by blast
  then show ?case
  proof cases
    case const
    then show ?thesis
      by (auto simp: emitNodeAtBlockLevel_kind intro!: same_run_andThen)
  next
    case ret
    then show ?thesis using 12(1)[OF refl refl ret]
      by (auto simp: emitNodeAtBlockLevel_kind intro!: same_run_andThen)
  next
    case other
    show ?thesis
    proof (cases "can_emit_inline s (nid (info node))")
      case True
      then show ?thesis using other
        by (auto simp: emitNodeAtBlockLevel_kind intro!: same_run_andThen)
    next
      case False
      then have ni: "\<not> can_emit_inline ?s (nid (info node))" by simp
      have ih: "same_run b m (emitNode node (set_mobile b m ?s)) (emitNode node ?s)"
        using other 12(2-)[OF refl refl _ ni] by (cases "kind (info node)") simp_all
      show ?thesis using other False ih
        by (auto simp: emitNodeAtBlockLevel_kind intro!: same_run_andThen)
    qed
  qed
next
  case (13 node s)
  then show ?case
    by (auto simp: emitTypeCheck.simps Let_def emitType_def insertConstant_def
        intro!: same_run_andThen same_run_value same_guard_andThen same_guard_value same_run_andThen_guard )
next
  case (14 node s)
  then show ?case
    by (auto simp: emitGuard.simps Let_def emitType_def insertConstant_def
        intro!: same_run_andThen same_run_value same_guard_andThen same_guard_value same_run_andThen_guard )
next
  case (15 node s)
  then show ?case
    by (auto simp: emitBailOut.simps Let_def emitType_def insertConstant_def
        intro!: same_run_andThen same_run_value same_guard_andThen same_guard_value same_run_andThen_guard )
next
  case (16 node s)
  then show ?case
    by (auto simp: emitProfile.simps Let_def emitType_def insertConstant_def
        intro!: same_run_andThen same_run_value same_guard_andThen same_guard_value same_run_andThen_guard split: profile_cast.splits)
next
  case (17 node s)
  then show ?case
    by (auto simp: emitGetAttr.simps Let_def emitType_def insertConstant_def
        intro!: same_run_andThen same_run_value same_guard_andThen same_guard_value same_run_andThen_guard )
next
  case (18 node s)
  then show ?case
    by (auto simp: emitSetAttr.simps Let_def emitType_def insertConstant_def
        intro!: same_run_andThen same_run_value same_guard_andThen same_guard_value same_run_andThen_guard )
next
  case (19 name vs s)
  then show ?case
    by (auto simp: emitInterfaceCall.simps Let_def emitType_def insertConstant_def
        intro!: same_run_andThen same_run_value same_guard_andThen same_guard_value same_run_andThen_guard )
next
  case (20 node s)
  then show ?case
    by (auto simp: emitListUnpack.simps Let_def emitType_def insertConstant_def
        intro!: same_run_andThen same_run_value same_guard_andThen same_guard_value same_run_andThen_guard )
next
  case (21 node s)
  then show ?case
    by (auto simp: emitTupleConstruct.simps Let_def emitType_def insertConstant_def
        intro!: same_run_andThen same_run_value same_guard_andThen same_guard_value same_run_andThen_guard split: jit_type.splits)
next
  case (22 opc node s)
  then show ?case
    by (auto simp: emitContainerConstruct.simps Let_def emitType_def insertConstant_def
        intro!: same_run_andThen same_run_value same_guard_andThen same_guard_value same_run_andThen_guard )
next
  case (23 node s)
  then show ?case
    by (auto simp: emitIsinstance.simps Let_def emitType_def insertConstant_def
        intro!: same_run_andThen same_run_value same_guard_andThen same_guard_value same_run_andThen_guard )
next
  case (24 node s)
  then show ?case
    by (auto simp: emitTupleSlice.simps Let_def emitType_def insertConstant_def
        intro!: same_run_andThen same_run_value same_guard_andThen same_guard_value same_run_andThen_guard )
next
  case (25 node s)
  then show ?case
    by (auto simp: emitFork.simps Let_def emitType_def insertConstant_def
        intro!: same_run_andThen same_run_value same_guard_andThen same_guard_value same_run_andThen_guard )
next
  case (26 node s)
  then show ?case
    by (auto simp: emitWarn.simps Let_def emitType_def insertConstant_def
        intro!: same_run_andThen same_run_value same_guard_andThen same_guard_value same_run_andThen_guard )
next
  case (27 node s)
  then show ?case
    by (auto simp: emitEnter.simps Let_def emitType_def insertConstant_def
        intro!: same_run_andThen same_run_value same_guard_andThen same_guard_value same_run_andThen_guard )
next
  case (28 node s)
  note ih = 28[OF refl refl]
  let ?s = "s\<lparr>current_node := info node\<rparr>"
  have oper: "same_run b m (CodeImpl_emitOperator node (set_mobile b m ?s))
                (CodeImpl_emitOperator node ?s)"
    if "kind (info node) = prim_Return \<or> kind (info node) = other_kind k" for k
  proof (cases "is_MobileCodeImpl s")
    case True
    then show ?thesis using that ih(1,27)
      by (auto simp: MobileCodeImpl_emitOperator.simps)
  next
    case False
    then show ?thesis using that ih(2,28) by auto
  qed
  show ?case
  proof (cases "kind (info node)")
    case prim_Constant
    then show ?thesis by (auto simp: emitNode_kind intro!: same_run_andThen)
  next
    case prim_Return
    then show ?thesis using oper[of undefined]
      by (auto simp: emitNode_operator[of node undefined] MobileCodeImpl_emitOperator.simps
          intro!: same_run_andThen)
  next
    case (other_kind k)
    then show ?thesis using oper[of k]
      by (auto simp: emitNode_operator[of node k] MobileCodeImpl_emitOperator.simps
          intro!: same_run_andThen)
  next
    case prim_Param
    then show ?thesis by (auto simp: emitNode_kind intro!: same_run_andThen)
  next
    case prim_CreateObject
    then show ?thesis by (auto simp: emitNode_kind intro!: same_run_andThen)
  next
    case prim_Exit
    then show ?thesis by (auto simp: emitNode_kind intro!: same_run_andThen)
  next
    case prim_CallFunction
    then show ?thesis using ih(7)
      by (auto simp: emitNode_CallFunction intro!: same_run_andThen same_run_value)
  next
    case prim_CallMethod
    then show ?thesis using ih(8-11)
      by (auto simp: emitNode_CallMethod intro!: same_run_andThen same_run_value
          split: jit_type.splits)
  next
    case prim_Drop
    then show ?thesis using ih(3) by (auto simp: emitNode_kind intro!: same_run_andThen)
  next
    case prim_If
    then show ?thesis using ih(4) by (auto simp: emitNode_kind intro!: same_run_andThen)
  next
    case prim_Loop
    then show ?thesis using ih(5) by (auto simp: emitNode_kind intro!: same_run_andThen)
  next
    case aten_wait
    then show ?thesis using ih(6) by (auto simp: emitNode_kind intro!: same_run_andThen)
  next
    case prim_TypeCheck
    then show ?thesis using ih(12) by (auto simp: emitNode_kind intro!: same_run_andThen)
  next
    case prim_BailOut
    then show ?thesis using ih(13) by (auto simp: emitNode_kind intro!: same_run_andThen)
  next
    case prim_profile_ivalue
    then show ?thesis using ih(14) by (auto simp: emitNode_kind intro!: same_run_andThen)
  next
    case prim_profile
    then show ?thesis using ih(15) by (auto simp: emitNode_kind intro!: same_run_andThen)
  next
    case prim_GetAttr
    then show ?thesis using ih(16) by (auto simp: emitNode_kind intro!: same_run_andThen)
  next
    case prim_SetAttr
    then show ?thesis using ih(17) by (auto simp: emitNode_kind intro!: same_run_andThen)
  next
    case prim_ListUnpack
    then show ?thesis using ih(18) by (auto simp: emitNode_kind intro!: same_run_andThen)
  next
    case prim_TupleConstruct
    then show ?thesis using ih(19) by (auto simp: emitNode_kind intro!: same_run_andThen)
  next
    case prim_ListConstruct
    then show ?thesis using ih(20) by (auto simp: emitNode_kind intro!: same_run_andThen)
  next
    case prim_DictConstruct
    then show ?thesis using ih(21) by (auto simp: emitNode_kind intro!: same_run_andThen)
  next
    case prim_isinstance
    then show ?thesis using ih(22) by (auto simp: emitNode_kind intro!: same_run_andThen)
  next
    case prim_TupleSlice
    then show ?thesis using ih(23) by (auto simp: emitNode_kind intro!: same_run_andThen)
  next
    case prim_fork
    then show ?thesis using ih(24) by (auto simp: emitNode_kind intro!: same_run_andThen)
  next
    case aten_warn
    then show ?thesis using ih(25) by (auto simp: emitNode_kind intro!: same_run_andThen)
  next
    case prim_Enter
    then show ?thesis using ih(26) by (auto simp: emitNode_kind intro!: same_run_andThen)
  qed
next
  case (29 param ns ret s)
  then show ?case
    by (auto simp: emitCodeForBlock.simps Let_def emitType_def insertConstant_def
        intro!: same_run_andThen same_run_value same_guard_andThen same_guard_value same_run_andThen_guard )
next
  case (30 s)
  then show ?case
    by (auto simp: emitNodes.simps Let_def emitType_def insertConstant_def
        intro!: same_run_andThen same_run_value same_guard_andThen same_guard_value same_run_andThen_guard )
next
  case (31 node rest s)
  then show ?case
    by (auto simp: emitNodes.simps Let_def emitType_def insertConstant_def
        intro!: same_run_andThen same_run_value same_guard_andThen same_guard_value same_run_andThen_guard )
qed

lemma same_run_CodeImpl_run:
  "same_run b m (CodeImpl_run graph (set_mobile b m s)) (CodeImpl_run graph s)"
  unfolding CodeImpl_run_def
  by (intro same_run_andThen mobile_fields_ignored(27) same_run_insertInstruction)
     (simp add: insertBailoutBlocks_def same_run_insertBailoutBlocks_loop)

lemma process_ops_loop_only_table:
  "process_ops_loop cna ns s =
     s\<lparr>op_to_num_specified_args := op_to_num_specified_args (process_ops_loop cna ns s)\<rparr>"
proof (induction ns arbitrary: s)
  case Nil
  then show ?case by simp
next
  case (Cons n rest)
  show ?case
  proof (cases "maybeOperator (info n)")
    case None
    then show ?thesis using Cons.IH[of s] by simp
  next
    case (Some op_schema)
    let ?t = "s\<lparr>op_to_num_specified_args := (op_to_num_specified_args s)
        (unique_name op_schema \<mapsto>
           max (cna (schema_arguments op_schema) (inputs n))
             (case op_to_num_specified_args s (unique_name op_schema) of
                None \<Rightarrow> 0 | Some v \<Rightarrow> v))\<rparr>"
    show ?thesis
    proof (cases "is_vararg op_schema")
      case True
      then show ?thesis using Some Cons.IH[of s] by simp
    next
      case False
      then have step: "process_ops_loop cna (n # rest) s = process_ops_loop cna rest ?t"
        using Some by (simp add: Let_def)
      have "process_ops_loop cna rest ?t =
          ?t\<lparr>op_to_num_specified_args := op_to_num_specified_args (process_ops_loop cna rest ?t)\<rparr>"
        by (rule Cons.IH)
      also have "\<dots> = s\<lparr>op_to_num_specified_args :=
          op_to_num_specified_args (process_ops_loop cna rest ?t)\<rparr>"
        by simp
      finally show ?thesis unfolding step .
    qed
  qed
qed

text \<open>
  Claim C10. \<^verbatim>\<open>MobileCodeImpl::emitOperator\<close> is \<^verbatim>\<open>CodeImpl::emitOperator\<close>. For every
  graph, inline table and \<^verbatim>\<open>CalculateNecessaryArgs\<close>, the mobile compiler fails exactly
  when the plain one fails, with the same error, and otherwise returns the state that the
  plain one returns, but for the flag that marks it as mobile and the table of the
  pre-pass: the same instructions and the same operator table among the rest.
  Whatever the flag and the table are when a compilation starts, they change neither
  the instructions nor the operator table that it produces.
\<close>

theorem mobile_emits_same_program:
  "MobileCodeImpl_emitOperator node s = CodeImpl_emitOperator node s \<and>
   new_MobileCodeImpl cna inline_table warn_flag graph =
     map_sum id
       (set_mobile True
          (op_to_num_specified_args
             (process_ops_for_mobile cna graph
                ((init_CodeImpl inline_table warn_flag graph)\<lparr>is_MobileCodeImpl := True\<rparr>))))
       (new_CodeImpl inline_table warn_flag graph True) \<and>
   map_sum id instructions (new_MobileCodeImpl cna inline_table warn_flag graph) =
     map_sum id instructions (new_CodeImpl inline_table warn_flag graph True) \<and>
   map_sum id operator_table (new_MobileCodeImpl cna inline_table warn_flag graph) =
     map_sum id operator_table (new_CodeImpl inline_table warn_flag graph True) \<and>
   map_sum id (\<lambda>t. (instructions t, operator_table t))
       (CodeImpl_run graph (s\<lparr>is_MobileCodeImpl := b, op_to_num_specified_args := table\<rparr>)) =
     map_sum id (\<lambda>t. (instructions t, operator_table t)) (CodeImpl_run graph s)"
proof -
  let ?init = "init_CodeImpl inline_table warn_flag graph"
  let ?s0 = "?init\<lparr>is_MobileCodeImpl := True\<rparr>"
  define M where "M = op_to_num_specified_args (process_ops_for_mobile cna graph ?s0)"
  have p: "process_ops_for_mobile cna graph ?s0 = set_mobile True M ?init"
    using process_ops_loop_only_table[of cna "DepthFirstGraphNodeIterator graph" ?s0]
    by (simp add: process_ops_for_mobile_def set_mobile_def M_def)
  have "new_MobileCodeImpl cna inline_table warn_flag graph =
          CodeImpl_run graph (process_ops_for_mobile cna graph ?s0)"
    by (simp add: new_MobileCodeImpl_def new_CodeImpl_def MobileCodeImpl_run_def
        CodeImpl_run_def Let_def)
  also have "\<dots> = CodeImpl_run graph (set_mobile True M ?init)" by (simp only: p)
  also have "\<dots> = map_sum id (set_mobile True M) (CodeImpl_run graph ?init)"
    using same_run_CodeImpl_run[of True M graph ?init] by (simp add: same_run_def)
  finally have e0: "new_MobileCodeImpl cna inline_table warn_flag graph =
      map_sum id (set_mobile True M) (new_CodeImpl inline_table warn_flag graph True)"
    by (simp add: new_CodeImpl_def)
  then have e: "new_MobileCodeImpl cna inline_table warn_flag graph =
      map_sum id (set_mobile True
          (op_to_num_specified_args (process_ops_for_mobile cna graph ?s0)))
        (new_CodeImpl inline_table warn_flag graph True)"
    by (simp only: M_def)
  have i: "map_sum id instructions (new_MobileCodeImpl cna inline_table warn_flag graph) =
     map_sum id instructions (new_CodeImpl inline_table warn_flag graph True)"
    unfolding e0 by (cases "new_CodeImpl inline_table warn_flag graph True") simp_all
  have t: "map_sum id operator_table (new_MobileCodeImpl cna inline_table warn_flag graph) =
     map_sum id operator_table (new_CodeImpl inline_table warn_flag graph True)"
    unfolding e0 by (cases "new_CodeImpl inline_table warn_flag graph True") simp_all
  have r: "map_sum id (\<lambda>t. (instructions t, operator_table t))
       (CodeImpl_run graph (s\<lparr>is_MobileCodeImpl := b, op_to_num_specified_args := table\<rparr>)) =
     map_sum id (\<lambda>t. (instructions t, operator_table t)) (CodeImpl_run graph s)"
    using same_run_CodeImpl_run[of b table graph s]
    by (cases "CodeImpl_run graph s") (simp_all add: same_run_def set_mobile_def)
  have o: "MobileCodeImpl_emitOperator node s = CodeImpl_emitOperator node s"
    by (simp add: MobileCodeImpl_emitOperator.simps)
  from o e i t r show ?thesis by (intro conjI)
qed

theorem mobile_emits_same_program_witness:
  "listing (new_MobileCodeImpl (\<lambda>args ins. length ins) (\<lambda>_. False) False if_graph) =
     Some ([(STOREN, 1, 3), (MOVE, 1, 0), (JF, 7, 0)] @ if_true_code @ [(JMP, 6, 0)] @
           if_false_code @ [(STORE, 6, 0), (MOVE, 6, 0), (RET, 0, 0)])"
proof -
  have "listing r' = listing r" if "map_sum id instructions r' = map_sum id instructions r"
    for r r' :: "error + CodeImpl"
    using that by (cases r; cases r') (simp_all add: listing_def)
  with mobile_emits_same_program[of _ _ "\<lambda>args ins. length ins" "\<lambda>_. False" False if_graph]
  have "listing (new_MobileCodeImpl (\<lambda>args ins. length ins) (\<lambda>_. False) False if_graph) =
        listing (new_CodeImpl (\<lambda>_. False) False if_graph True)"
    by blast
  then show ?thesis using if_listing by (simp add: if_true_code_def if_false_code_def)
qed

end
